theory Spec2Isabelle
  imports Complex_Main "HOL-Library.List_Lexorder" "HOL-Library.Multiset"
begin

section \<open>Python strings\<close>

text \<open>
  A Python \<open>str\<close> is a sequence of Unicode code points, so it is modelled as a list of
  natural numbers (one per code point), not as a list of bytes. \<open>cps\<close> turns an ASCII
  literal into that representation, so that the theory can write \<open>cps ''item''\<close>.
\<close>

type_synonym pystr = "nat list"

definition cps :: "string \<Rightarrow> pystr" where
  "cps s = map of_char s"

text \<open>
  The classification of a code point as alphanumeric (\<open>str.isalnum\<close>, which is what
  \<open>\w\<close> of the \<open>re\<close> module consults for a \<open>str\<close> pattern) and its lower-case mapping
  (\<open>str.lower\<close>) are tables of the Unicode character database that ships with the
  interpreter. They are not part of the program, so the model takes them as a parameter.
  Only code points from 128 on are looked up: on ASCII both are written out below.
\<close>

record ucd =
  uc_alnum :: "nat \<Rightarrow> bool"
  uc_lower :: "nat \<Rightarrow> pystr"

text \<open>
  The Latin-1 Supplement block (U+0080 to U+00FF) of those tables, for concrete runs:
  the letters are U+00AA, U+00B5, U+00BA, U+00C0 to U+00D6, U+00D8 to U+00F6 and
  U+00F8 to U+00FF, the digits and numerics U+00B2, U+00B3, U+00B9 and U+00BC to U+00BE;
  the capital letters U+00C0 to U+00DE (without the sign U+00D7) lower by adding 32.
\<close>

definition latin1_alnum :: "nat \<Rightarrow> bool" where
  "latin1_alnum c = (c = 170 \<or> c = 178 \<or> c = 179 \<or> c = 181 \<or> c = 185 \<or> c = 186
     \<or> (188 \<le> c \<and> c \<le> 190) \<or> (192 \<le> c \<and> c \<le> 214) \<or> (216 \<le> c \<and> c \<le> 246)
     \<or> (248 \<le> c \<and> c \<le> 255))"

definition latin1_lower :: "nat \<Rightarrow> pystr" where
  "latin1_lower c = (if 192 \<le> c \<and> c \<le> 222 \<and> c \<noteq> 215 then [c + 32] else [c])"

definition latin1 :: ucd where
  "latin1 = \<lparr>uc_alnum = latin1_alnum, uc_lower = latin1_lower\<rparr>"

text \<open>
  \<open>str.isspace\<close>, which decides what \<open>str.strip()\<close> removes: the ASCII controls 9 to 13
  and 28 to 31, the space, and the Unicode spaces and separators.
\<close>

definition isspace :: "nat \<Rightarrow> bool" where
  "isspace c = ((9 \<le> c \<and> c \<le> 13) \<or> (28 \<le> c \<and> c \<le> 32) \<or> c = 133 \<or> c = 160
     \<or> c = 5760 \<or> (8192 \<le> c \<and> c \<le> 8202) \<or> c = 8232 \<or> c = 8233 \<or> c = 8239
     \<or> c = 8287 \<or> c = 12288)"

definition ascii_alnum :: "nat \<Rightarrow> bool" where
  "ascii_alnum c = ((48 \<le> c \<and> c \<le> 57) \<or> (65 \<le> c \<and> c \<le> 90) \<or> (97 \<le> c \<and> c \<le> 122))"

text \<open>\<open>\w\<close>: an alphanumeric code point or the underscore (95).\<close>

definition word_char :: "ucd \<Rightarrow> nat \<Rightarrow> bool" where
  "word_char db c = (if c < 128 then ascii_alnum c \<or> c = 95 else uc_alnum db c)"

text \<open>The class \<open>[\w\-\.]\<close> of \<open>sanitize_stem\<close>: a word character, the hyphen (45) or the dot (46).\<close>

definition allowed :: "ucd \<Rightarrow> nat \<Rightarrow> bool" where
  "allowed db c = (word_char db c \<or> c = 45 \<or> c = 46)"

text \<open>The ASCII class \<open>[A-Za-z0-9_.\-]\<close> of the specification.\<close>

definition ascii_allowed :: "nat \<Rightarrow> bool" where
  "ascii_allowed c = (ascii_alnum c \<or> c = 95 \<or> c = 45 \<or> c = 46)"

text \<open>\<open>s.strip()\<close> and \<open>s.strip(chars)\<close>: drop from both ends while the predicate holds.\<close>

definition strip_by :: "(nat \<Rightarrow> bool) \<Rightarrow> pystr \<Rightarrow> pystr" where
  "strip_by P s = rev (dropWhile P (rev (dropWhile P s)))"

definition strip :: "pystr \<Rightarrow> pystr" where
  "strip s = strip_by isspace s"

text \<open>
  \<open>re.sub(r"[C]+", "_", s)\<close> for a character class \<open>C\<close>: every maximal run of code
  points in the class is replaced by one underscore.
\<close>

function sub_runs :: "(nat \<Rightarrow> bool) \<Rightarrow> pystr \<Rightarrow> pystr" where
  "sub_runs P [] = []"
| "sub_runs P (c # cs) =
     (if P c then 95 # sub_runs P (dropWhile P cs) else c # sub_runs P cs)"
  by pat_completeness auto
termination
  by (relation "measure (\<lambda>(P, s). length s)") (auto simp: length_dropWhile_le less_Suc_eq_le)

text \<open>\<open>s[:n]\<close> for a Python integer \<open>n\<close>: a negative \<open>n\<close> counts from the end.\<close>

definition slice_to :: "int \<Rightarrow> pystr \<Rightarrow> pystr" where
  "slice_to n s = (if 0 \<le> n then take (nat n) s else take (length s - nat (- n)) s)"

section \<open>The name sanitizer\<close>

definition sanitize_stem :: "ucd \<Rightarrow> pystr \<Rightarrow> int \<Rightarrow> pystr" where
  "sanitize_stem db name max_len =
     (let name1 = strip name;
          name2 = sub_runs (\<lambda>c. \<not> allowed db c) name1;
          name3 = sub_runs (\<lambda>c. c = 95) name2;
          name4 = (let t = strip_by (\<lambda>c. c = 95) name3 in if t = [] then cps ''item'' else t)
      in slice_to max_len name4)"

text \<open>
  The tables are consistent with \<open>isspace\<close> when no white-space code point from 128 on
  is classified as alphanumeric, as is the case in the Unicode database (white space has
  the categories Zs, Zl, Zp and Cc, alphanumerics the categories L and N).
\<close>

definition ucd_ok :: "ucd \<Rightarrow> bool" where
  "ucd_ok db = list_all (\<lambda>c. \<not> uc_alnum db c)
     [133, 160, 5760, 8192, 8193, 8194, 8195, 8196, 8197, 8198, 8199, 8200, 8201, 8202,
      8232, 8233, 8239, 8287, 12288]"

text \<open>No two adjacent underscores: what the second substitution establishes.\<close>

fun no_double :: "pystr \<Rightarrow> bool" where
  "no_double [] = True"
| "no_double [a] = True"
| "no_double (a # b # cs) = (\<not> (a = 95 \<and> b = 95) \<and> no_double (b # cs))"

section \<open>Paths\<close>

text \<open>
  A \<open>pathlib.Path\<close> is the list of its components; the empty list is the path \<open>.\<close>,
  whose name is empty. Paths compare component by component and components compare by
  code point, which is the lexicographic order on lists of lists (POSIX flavour).
  \<open>suffix\<close> and \<open>stem\<close> split the name at its last dot, unless that dot is the first or
  the last character of the name.
\<close>

type_synonym path = "pystr list"

definition name_of :: "path \<Rightarrow> pystr" where
  "name_of p = (if p = [] then [] else last p)"

fun rfind :: "nat \<Rightarrow> pystr \<Rightarrow> nat option" where
  "rfind c [] = None"
| "rfind c (x # xs) =
     (case rfind c xs of Some i \<Rightarrow> Some (Suc i) | None \<Rightarrow> if x = c then Some 0 else None)"

definition suffix_of :: "pystr \<Rightarrow> pystr" where
  "suffix_of nm = (case rfind 46 nm of None \<Rightarrow> []
     | Some i \<Rightarrow> if 0 < i \<and> i + 1 < length nm then drop i nm else [])"

definition stem_of :: "pystr \<Rightarrow> pystr" where
  "stem_of nm = (case rfind 46 nm of None \<Rightarrow> nm
     | Some i \<Rightarrow> if 0 < i \<and> i + 1 < length nm then take i nm else nm)"

text \<open>\<open>str.lower\<close>: written out on ASCII, looked up in the tables from 128 on.\<close>

definition py_lower :: "ucd \<Rightarrow> pystr \<Rightarrow> pystr" where
  "py_lower db s = concat (map (\<lambda>c. if c < 128 then [if 65 \<le> c \<and> c \<le> 90 then c + 32 else c]
     else uc_lower db c) s)"

definition endswith :: "pystr \<Rightarrow> pystr \<Rightarrow> bool" where
  "endswith s suf = (length suf \<le> length s \<and> drop (length s - length suf) s = suf)"

definition startswith :: "pystr \<Rightarrow> pystr \<Rightarrow> bool" where
  "startswith s pre = (take (length pre) s = pre)"

section \<open>Exceptions and what the run prints\<close>

text \<open>
  The exceptions the program raises itself, the one \<open>shutil.move\<close> raises for a source
  that is not there, and an opaque exception of the browser collaborator or of a library
  call, with a tag. All of them are subclasses of \<open>Exception\<close>.
\<close>

datatype exn = TimeoutError | RuntimeError | ValueError | FileNotFoundError | External nat

text \<open>
  One constructor for each \<open>print\<close> of the program, with the values it formats, and two
  for the start and the shutdown of the browser.
\<close>

datatype event =
    EvPhraseFileNotFound path
  | EvNoUsablePhrases
  | EvSkipNonTTF path
  | EvNoValidPhrases
  | EvDriverStarted
  | EvOk pystr pystr pystr
  | EvPhraseError pystr pystr exn
  | EvFontError path exn
  | EvDriverQuit

section \<open>Loading the phrases\<close>

text \<open>
  What \<open>load_phrases\<close> finds at the path: nothing, something \<open>read_text\<close> fails on (a
  directory, bytes that are not UTF-8), or a file with its decoded characters.
  \<open>read_text\<close> opens the file in text mode, which turns \<open>\r\n\<close> and \<open>\r\<close> into \<open>\n\<close>.
\<close>

datatype phrase_file = NoFile | Unreadable exn | Content pystr

fun universal_newlines :: "pystr \<Rightarrow> pystr" where
  "universal_newlines [] = []"
| "universal_newlines [c] = [if c = 13 then 10 else c]"
| "universal_newlines (c # d # cs) =
     (if c = 13 \<and> d = 10 then 10 # universal_newlines cs
      else if c = 13 then 10 # universal_newlines (d # cs)
      else c # universal_newlines (d # cs))"

text \<open>The line boundaries of \<open>str.splitlines\<close>; \<open>\r\n\<close> counts as one.\<close>

definition is_linebreak :: "nat \<Rightarrow> bool" where
  "is_linebreak c = (c = 10 \<or> c = 11 \<or> c = 12 \<or> c = 13 \<or> c = 28 \<or> c = 29 \<or> c = 30
     \<or> c = 133 \<or> c = 8232 \<or> c = 8233)"

fun split_lines :: "pystr \<Rightarrow> pystr \<Rightarrow> pystr list" where
  "split_lines cur [] = (if cur = [] then [] else [cur])"
| "split_lines cur [c] = (if is_linebreak c then [cur] else [cur @ [c]])"
| "split_lines cur (c # d # cs) =
     (if c = 13 \<and> d = 10 then cur # split_lines [] cs
      else if is_linebreak c then cur # split_lines [] (d # cs)
      else split_lines (cur @ [c]) (d # cs))"

definition splitlines :: "pystr \<Rightarrow> pystr list" where
  "splitlines s = split_lines [] s"

text \<open>The loop over the lines, with the list \<open>phrases\<close> it appends to.\<close>

fun collect_phrases :: "pystr list \<Rightarrow> pystr list \<Rightarrow> pystr list" where
  "collect_phrases phrases [] = phrases"
| "collect_phrases phrases (line # ls) =
     (let s = strip line in
      if s = [] \<or> startswith s [35] then collect_phrases phrases ls
      else collect_phrases (phrases @ [s]) ls)"

definition load_phrases :: "path \<Rightarrow> phrase_file \<Rightarrow> exn + (pystr list \<times> event list)" where
  "load_phrases p f = (case f of
       NoFile \<Rightarrow> Inr ([], [EvPhraseFileNotFound p])
     | Unreadable e \<Rightarrow> Inl e
     | Content t \<Rightarrow>
         (let phrases = collect_phrases [] (splitlines (universal_newlines t))
          in Inr (phrases, if phrases = [] then [EvNoUsablePhrases] else [])))"

section \<open>Directory listings\<close>

text \<open>
  What one look at the file system shows: the paths that exist, in the order the
  operating system enumerates them, which of them are regular files, and the
  modification time and size \<open>stat\<close> reports. All reads of one poll are taken from one
  such snapshot.
\<close>

record snapshot =
  entries :: "path list"
  is_file :: "path \<Rightarrow> bool"
  st_mtime :: "path \<Rightarrow> real"
  st_size :: "path \<Rightarrow> nat"

text \<open>\<open>d.glob("*")\<close>: the children of \<open>d\<close>; \<open>d.rglob("*")\<close>: everything below \<open>d\<close>.\<close>

definition glob_star :: "path \<Rightarrow> snapshot \<Rightarrow> path list" where
  "glob_star d snap = filter (\<lambda>p. p \<noteq> [] \<and> butlast p = d) (entries snap)"

definition rglob_star :: "path \<Rightarrow> snapshot \<Rightarrow> path list" where
  "rglob_star d snap = filter (\<lambda>p. length d < length p \<and> take (length d) p = d) (entries snap)"

definition list_files :: "path \<Rightarrow> snapshot \<Rightarrow> path list" where
  "list_files d snap = filter (is_file snap) (glob_star d snap)"

section \<open>Enumerating the fonts\<close>

text \<open>
  The generator \<open>iter_ttf_fonts\<close> as the list of what it does in order: a warning it
  prints or a font it yields. \<open>sorted\<close> is \<open>sort\<close>: the order is total on the paths
  themselves, so every sorting algorithm returns the same list.
\<close>

datatype item = Warn path | Yield path

definition is_ttf :: "ucd \<Rightarrow> path \<Rightarrow> bool" where
  "is_ttf db p = (py_lower db (suffix_of (name_of p)) = cps ''.ttf'')"

fun iter_items :: "ucd \<Rightarrow> snapshot \<Rightarrow> path list \<Rightarrow> item list" where
  "iter_items db snap [] = []"
| "iter_items db snap (p # ps) =
     (if \<not> is_file snap p then iter_items db snap ps
      else if \<not> is_ttf db p then Warn p # iter_items db snap ps
      else Yield p # iter_items db snap ps)"

definition iter_ttf_fonts :: "ucd \<Rightarrow> snapshot \<Rightarrow> path \<Rightarrow> item list" where
  "iter_ttf_fonts db snap font_dir = iter_items db snap (sort (rglob_star font_dir snap))"

fun yielded :: "item list \<Rightarrow> path list" where
  "yielded [] = []"
| "yielded (Yield p # xs) = p # yielded xs"
| "yielded (Warn p # xs) = yielded xs"

fun warned :: "item list \<Rightarrow> path list" where
  "warned [] = []"
| "warned (Warn p # xs) = p # warned xs"
| "warned (Yield p # xs) = warned xs"

section \<open>The download watcher\<close>

definition is_partial :: "ucd \<Rightarrow> path \<Rightarrow> bool" where
  "is_partial db p = (endswith (name_of p) (cps ''.part'')
     \<or> py_lower db (suffix_of (name_of p)) \<in> {cps ''.part'', cps ''.tmp'', cps ''.crdownload''})"

text \<open>
  One turn of the loop reads the clock in the loop condition, looks at the directory,
  and reads the clock again for \<open>now\<close>. The run of \<open>wait_for_new_download\<close> is driven by
  the list of these observations, one for each turn the outside world lets it take.
\<close>

record poll =
  t_loop :: real
  view :: snapshot
  t_now :: real

text \<open>\<open>max(new, key=...)\<close>: the first element with the greatest key.\<close>

fun max_by :: "('a \<Rightarrow> real) \<Rightarrow> 'a \<Rightarrow> 'a list \<Rightarrow> 'a" where
  "max_by key best [] = best"
| "max_by key best (x # xs) = max_by key (if key best < key x then x else best) xs"

definition new_files :: "ucd \<Rightarrow> path \<Rightarrow> path set \<Rightarrow> snapshot \<Rightarrow> path list" where
  "new_files db d before_set snap =
     filter (\<lambda>p. p \<notin> before_set \<and> is_file snap p \<and> \<not> is_partial db p) (list_files d snap)"

text \<open>
  The loop, with its variables \<open>last_size\<close> and \<open>stable_since\<close>. \<open>None\<close> is returned when
  the observations end before the loop has decided; it stands for a run that is still
  polling.
\<close>

fun poll_loop :: "ucd \<Rightarrow> path \<Rightarrow> path set \<Rightarrow> real \<Rightarrow> nat option \<Rightarrow> real option \<Rightarrow> poll list
    \<Rightarrow> (exn + path) option" where
  "poll_loop db d before_set deadline last_size stable_since [] = None"
| "poll_loop db d before_set deadline last_size stable_since (ob # obs) =
     (if \<not> t_loop ob < deadline then Some (Inl TimeoutError)
      else
        (let new = new_files db d before_set (view ob) in
         if new = [] then poll_loop db d before_set deadline last_size stable_since obs
         else
           (let candidate = max_by (st_mtime (view ob)) (hd new) (tl new);
                sz = st_size (view ob) candidate;
                now = t_now ob
            in if last_size \<noteq> Some sz then poll_loop db d before_set deadline (Some sz) (Some now) obs
               else (case stable_since of
                       Some since \<Rightarrow>
                         if 1 \<le> now - since then Some (Inr candidate)
                         else poll_loop db d before_set deadline last_size stable_since obs
                     | None \<Rightarrow> poll_loop db d before_set deadline last_size stable_since obs))))"

text \<open>
  What one poll selects and measures, for the statements about the loop: the candidate
  (none when no new file is listed) and the size it reads for it.
\<close>

definition candidate_of :: "ucd \<Rightarrow> path \<Rightarrow> path set \<Rightarrow> snapshot \<Rightarrow> path option" where
  "candidate_of db d before_set snap =
     (let new = new_files db d before_set snap in
      if new = [] then None else Some (max_by (st_mtime snap) (hd new) (tl new)))"

definition observed_size :: "ucd \<Rightarrow> path \<Rightarrow> path set \<Rightarrow> snapshot \<Rightarrow> nat option" where
  "observed_size db d before_set snap = map_option (st_size snap) (candidate_of db d before_set snap)"

text \<open>\<open>t0\<close> is the clock reading that fixes the deadline.\<close>

definition wait_for_new_download :: "ucd \<Rightarrow> real \<Rightarrow> poll list \<Rightarrow> path \<Rightarrow> path set \<Rightarrow> int
    \<Rightarrow> (exn + path) option" where
  "wait_for_new_download db t0 polls download_dir before_set timeout_s =
     poll_loop db download_dir before_set (t0 + real_of_int timeout_s) None None polls"

section \<open>The collision-safe move\<close>

text \<open>
  The file system as \<open>safe_move\<close> sees it: a path exists when it is mapped. Directories
  are not tracked, so \<open>mkdir(parents=True, exist_ok=True)\<close> has nothing to do.
  \<open>shutil.move\<close> fails when the source does not exist.
\<close>

type_synonym 'c fs = "path \<Rightarrow> 'c option"

definition move :: "'c fs \<Rightarrow> path \<Rightarrow> path \<Rightarrow> exn + ('c fs \<times> path)" where
  "move files src dst = (case files src of
       None \<Rightarrow> Inl FileNotFoundError
     | Some c \<Rightarrow> Inr ((files(src := None))(dst := Some c), dst))"

text \<open>The format \<open>{i:02d}\<close>: decimal, padded with zeros to two digits.\<close>

function digits :: "nat \<Rightarrow> pystr" where
  "digits n = (if n < 10 then [48 + n] else digits (n div 10) @ [48 + n mod 10])"
  by pat_completeness auto
termination
  by (relation "measure id") auto

declare digits.simps [simp del]

definition fmt02 :: "nat \<Rightarrow> pystr" where
  "fmt02 i = replicate (2 - length (digits i)) 48 @ digits i"

definition candidate :: "path \<Rightarrow> nat \<Rightarrow> path" where
  "candidate dst i =
     butlast dst @ [stem_of (name_of dst) @ [95] @ fmt02 i @ suffix_of (name_of dst)]"

text \<open>
  The loop \<open>for i in range(1, 10000)\<close> from \<open>i\<close> on. \<open>with_name\<close> raises \<open>ValueError\<close>
  for a path with an empty name.
\<close>

function try_candidates :: "'c fs \<Rightarrow> path \<Rightarrow> path \<Rightarrow> nat \<Rightarrow> exn + ('c fs \<times> path)" where
  "try_candidates files src dst i =
     (if i < 10000 then
        (if name_of dst = [] then Inl ValueError
         else if files (candidate dst i) = None then move files src (candidate dst i)
         else try_candidates files src dst (i + 1))
      else Inl RuntimeError)"
  by pat_completeness auto
termination
  by (relation "measure (\<lambda>(files, src, dst, i). 10000 - i)") auto

declare try_candidates.simps [simp del]

definition safe_move :: "'c fs \<Rightarrow> path \<Rightarrow> path \<Rightarrow> exn + ('c fs \<times> path)" where
  "safe_move files src dst =
     (if files dst = None then move files src dst else try_candidates files src dst 1)"

section \<open>The batch run\<close>

text \<open>The arguments \<open>main\<close> reads, as \<open>parse_args\<close> returns them.\<close>

record args =
  a_fonts :: path
  a_output :: path
  a_tmp :: path
  a_phrases :: path
  a_download_timeout :: int

text \<open>
  Everything the run does not control is an input of the model. For one font: whether
  \<open>driver.get\<close>, \<open>wait_for_ui_ready\<close> and \<open>upload_font\<close> raise. For one phrase of one font:
  whether \<open>set_phrase\<close> and \<open>click_download\<close> raise, what \<open>list_files\<close> sees before the
  click, the clock reading and the observations of the watcher, and the files the
  browser has written into its download directory (which \<open>make_driver\<close> sets to
  \<open>--tmp\<close>) by the time the download is moved, each with its name and content.
\<close>

record font_env =
  fe_get :: "exn option"
  fe_ready :: "exn option"
  fe_upload :: "exn option"

record 'c attempt =
  at_set_phrase :: "exn option"
  at_before :: snapshot
  at_click :: "exn option"
  at_start :: real
  at_polls :: "poll list"
  at_downloads :: "(pystr \<times> 'c) list"

text \<open>
  For the whole run: the phrase file, the tree below \<open>--fonts\<close>, whether \<open>make_driver\<close>
  and \<open>driver.quit\<close> raise, and the above for every font and for every position in
  the phrase list.
\<close>

record 'c env =
  e_phrase_file :: phrase_file
  e_make_driver :: "exn option"
  e_fonts :: snapshot
  e_font :: "path \<Rightarrow> font_env"
  e_attempt :: "path \<Rightarrow> nat \<Rightarrow> 'c attempt"
  e_quit :: "exn option"

record 'c state =
  s_files :: "'c fs"
  s_log :: "event list"

definition written :: "path \<Rightarrow> (pystr \<times> 'c) list \<Rightarrow> 'c fs \<Rightarrow> 'c fs" where
  "written tmp downloads files = fold (\<lambda>(n, c) f. f(tmp @ [n] := Some c)) downloads files"

definition out_name :: "ucd \<Rightarrow> path \<Rightarrow> pystr \<Rightarrow> pystr" where
  "out_name db font_path phrase =
     sanitize_stem db (stem_of (name_of font_path)) 80 @ cps ''__''
       @ sanitize_stem db phrase 80 @ cps ''.stl''"

text \<open>
  The body of the inner \<open>try\<close> for the phrase at position \<open>j\<close>, and its handler, which
  prints the font name, the phrase and the exception.
\<close>

definition process_phrase :: "ucd \<Rightarrow> args \<Rightarrow> 'c env \<Rightarrow> path \<Rightarrow> nat \<Rightarrow> pystr \<Rightarrow> 'c state
    \<Rightarrow> 'c state option" where
  "process_phrase db ar en font_path j phrase st =
     (let a = e_attempt en font_path j;
          files = written (a_tmp ar) (at_downloads a) (s_files st);
          failed = (\<lambda>e. Some \<lparr>s_files = files,
                      s_log = s_log st @ [EvPhraseError (name_of font_path) phrase e]\<rparr>)
      in case at_set_phrase a of Some e \<Rightarrow> failed e
         | None \<Rightarrow>
        (let before_set = set (list_files (a_tmp ar) (at_before a)) in
         case at_click a of Some e \<Rightarrow> failed e
         | None \<Rightarrow>
        (case wait_for_new_download db (at_start a) (at_polls a) (a_tmp ar) before_set
                (a_download_timeout ar) of
           None \<Rightarrow> None
         | Some (Inl e) \<Rightarrow> failed e
         | Some (Inr downloaded) \<Rightarrow>
        (case safe_move files downloaded (a_output ar @ [out_name db font_path phrase]) of
           Inl e \<Rightarrow> failed e
         | Inr (files', final_path) \<Rightarrow>
             Some \<lparr>s_files = files',
                   s_log = s_log st @ [EvOk (name_of font_path) phrase (name_of final_path)]\<rparr>))))"

fun phrase_loop :: "ucd \<Rightarrow> args \<Rightarrow> 'c env \<Rightarrow> path \<Rightarrow> nat \<Rightarrow> pystr list \<Rightarrow> 'c state
    \<Rightarrow> 'c state option" where
  "phrase_loop db ar en font_path j [] st = Some st"
| "phrase_loop db ar en font_path j (phrase # ps) st =
     (case process_phrase db ar en font_path j phrase st of
        None \<Rightarrow> None
      | Some st' \<Rightarrow> phrase_loop db ar en font_path (Suc j) ps st')"

text \<open>The three calls that set a font up: the first exception any of them raises.\<close>

definition font_setup :: "font_env \<Rightarrow> exn option" where
  "font_setup fe = (case fe_get fe of Some e \<Rightarrow> Some e
     | None \<Rightarrow> (case fe_ready fe of Some e \<Rightarrow> Some e | None \<Rightarrow> fe_upload fe))"

text \<open>The body of the outer \<open>try\<close> and its handler.\<close>

definition process_font :: "ucd \<Rightarrow> args \<Rightarrow> 'c env \<Rightarrow> pystr list \<Rightarrow> path \<Rightarrow> 'c state
    \<Rightarrow> 'c state option" where
  "process_font db ar en phrases font_path st =
     (case font_setup (e_font en font_path) of
        Some e \<Rightarrow> Some (st\<lparr>s_log := s_log st @ [EvFontError font_path e]\<rparr>)
      | None \<Rightarrow> phrase_loop db ar en font_path 0 phrases st)"

text \<open>The loop over the generator: its warnings are printed as it advances.\<close>

fun font_loop :: "ucd \<Rightarrow> args \<Rightarrow> 'c env \<Rightarrow> pystr list \<Rightarrow> item list \<Rightarrow> 'c state
    \<Rightarrow> 'c state option" where
  "font_loop db ar en phrases [] st = Some st"
| "font_loop db ar en phrases (Warn p # xs) st =
     font_loop db ar en phrases xs (st\<lparr>s_log := s_log st @ [EvSkipNonTTF p]\<rparr>)"
| "font_loop db ar en phrases (Yield p # xs) st =
     (case process_font db ar en phrases p st of
        None \<Rightarrow> None
      | Some st' \<Rightarrow> font_loop db ar en phrases xs st')"

text \<open>
  How \<open>main\<close> ends: at the \<open>return\<close> after the phrases were found empty, at its last
  line, or with an exception nothing catches. A run that never ends is \<open>None\<close>. The two
  \<open>mkdir\<close> calls at the start have nothing to do, as directories are not tracked, and
  \<open>finally\<close> quits the browser on every path on which it was started.
\<close>

datatype exit = EarlyReturn | Finished | Uncaught exn

record 'c run =
  r_exit :: exit
  r_log :: "event list"
  r_files :: "'c fs"

definition main :: "ucd \<Rightarrow> args \<Rightarrow> 'c env \<Rightarrow> 'c fs \<Rightarrow> 'c run option" where
  "main db ar en files0 =
     (case load_phrases (a_phrases ar) (e_phrase_file en) of
        Inl e \<Rightarrow> Some \<lparr>r_exit = Uncaught e, r_log = [], r_files = files0\<rparr>
      | Inr (phrases, evs) \<Rightarrow>
          if phrases = [] then
            Some \<lparr>r_exit = EarlyReturn, r_log = evs @ [EvNoValidPhrases], r_files = files0\<rparr>
          else
            (case e_make_driver en of
               Some e \<Rightarrow> Some \<lparr>r_exit = Uncaught e, r_log = evs, r_files = files0\<rparr>
             | None \<Rightarrow>
                 (case font_loop db ar en phrases (iter_ttf_fonts db (e_fonts en) (a_fonts ar))
                         \<lparr>s_files = files0, s_log = evs @ [EvDriverStarted]\<rparr> of
                    None \<Rightarrow> None
                  | Some st \<Rightarrow>
                      (case e_quit en of
                         Some e \<Rightarrow> Some \<lparr>r_exit = Uncaught e, r_log = s_log st,
                                          r_files = s_files st\<rparr>
                       | None \<Rightarrow> Some \<lparr>r_exit = Finished, r_log = s_log st @ [EvDriverQuit],
                                        r_files = s_files st\<rparr>))))"

text \<open>Reading a log: the pair an event reports on, and the artifact it announces.\<close>

fun pair_of :: "event \<Rightarrow> (pystr \<times> pystr) option" where
  "pair_of (EvOk f p n) = Some (f, p)"
| "pair_of (EvPhraseError f p e) = Some (f, p)"
| "pair_of ev = None"

fun artifact_of :: "event \<Rightarrow> pystr option" where
  "artifact_of (EvOk f p n) = Some n"
| "artifact_of ev = None"

fun failure_of :: "event \<Rightarrow> (pystr \<times> pystr) option" where
  "failure_of (EvPhraseError f p e) = Some (f, p)"
| "failure_of ev = None"

fun font_error_of :: "event \<Rightarrow> path option" where
  "font_error_of (EvFontError f e) = Some f"
| "font_error_of ev = None"

definition pairs :: "event list \<Rightarrow> (pystr \<times> pystr) list" where
  "pairs evs = List.map_filter pair_of evs"

definition artifacts :: "event list \<Rightarrow> pystr list" where
  "artifacts evs = List.map_filter artifact_of evs"

definition failures :: "event list \<Rightarrow> (pystr \<times> pystr) list" where
  "failures evs = List.map_filter failure_of evs"

definition font_errors :: "event list \<Rightarrow> path list" where
  "font_errors evs = List.map_filter font_error_of evs"

text \<open>
  The notions the statements about a run use: the fonts the generator yields, whether
  the setup of a font succeeds, the pairs of a list of fonts with the phrases in the
  order of the loops, whether the watcher of an attempt comes to a decision within its
  observations, and whether every artifact a log announces is a file of the output
  directory, each under a name of its own.
\<close>

definition fonts_of :: "ucd \<Rightarrow> args \<Rightarrow> 'c env \<Rightarrow> path list" where
  "fonts_of db ar en = yielded (iter_ttf_fonts db (e_fonts en) (a_fonts ar))"

definition setup_ok :: "'c env \<Rightarrow> path \<Rightarrow> bool" where
  "setup_ok en f = (font_setup (e_font en f) = None)"

definition all_pairs :: "path list \<Rightarrow> pystr list \<Rightarrow> (pystr \<times> pystr) list" where
  "all_pairs fonts phrases = concat (map (\<lambda>f. map (\<lambda>p. (name_of f, p)) phrases) fonts)"

definition decides :: "ucd \<Rightarrow> args \<Rightarrow> 'c attempt \<Rightarrow> bool" where
  "decides db ar a =
     (wait_for_new_download db (at_start a) (at_polls a) (a_tmp ar)
        (set (list_files (a_tmp ar) (at_before a))) (a_download_timeout ar) \<noteq> None)"

definition artifacts_kept :: "args \<Rightarrow> 'c state \<Rightarrow> bool" where
  "artifacts_kept ar st =
     (distinct (artifacts (s_log st))
      \<and> list_all (\<lambda>n. s_files st (a_output ar @ [n]) \<noteq> None) (artifacts (s_log st)))"

text \<open>What the watcher of an attempt returns or raises.\<close>

definition awaited :: "ucd \<Rightarrow> args \<Rightarrow> 'c attempt \<Rightarrow> (exn + path) option" where
  "awaited db ar a =
     wait_for_new_download db (at_start a) (at_polls a) (a_tmp ar)
       (set (list_files (a_tmp ar) (at_before a))) (a_download_timeout ar)"

text \<open>That none of the three calls that set a font up raises.\<close>

definition no_setup_error :: "font_env \<Rightarrow> bool" where
  "no_setup_error fe = (fe_get fe = None \<and> fe_ready fe = None \<and> fe_upload fe = None)"

section \<open>Concrete runs\<close>

text \<open>
  The directories and files of the runs evaluated below: a download directory \<open>tmp\<close>
  with two finished-looking files, an output directory \<open>out\<close>, and a font directory.
\<close>

definition d_tmp :: path where
  "d_tmp = [cps ''tmp'']"

definition d_out :: path where
  "d_out = [cps ''out'']"

definition d_fonts :: path where
  "d_fonts = [cps ''fonts'']"

definition file_a :: path where
  "file_a = [cps ''tmp'', cps ''a.stl'']"

definition file_b :: path where
  "file_b = [cps ''tmp'', cps ''b.stl'']"

text \<open>
  Three looks at \<open>tmp\<close>. In the first only \<open>a.stl\<close> is there, with 100 bytes. In the
  second \<open>b.stl\<close> has appeared beside it, newer and also of 100 bytes. The third is
  the second with \<open>a.stl\<close> grown to 150 bytes.
\<close>

definition snap_a :: snapshot where
  "snap_a = \<lparr>entries = [file_a], is_file = (\<lambda>p. True), st_mtime = (\<lambda>p. 0),
     st_size = (\<lambda>p. 100)\<rparr>"

definition snap_ab :: snapshot where
  "snap_ab = \<lparr>entries = [file_a, file_b], is_file = (\<lambda>p. True),
     st_mtime = (\<lambda>p. if p = file_b then 1 else 0), st_size = (\<lambda>p. 100)\<rparr>"

definition snap_ab_grown :: snapshot where
  "snap_ab_grown = \<lparr>entries = [file_a, file_b], is_file = (\<lambda>p. True),
     st_mtime = (\<lambda>p. if p = file_b then 1 else 0),
     st_size = (\<lambda>p. if p = file_b then 100 else 150)\<rparr>"

text \<open>A poll that reads the clock as \<open>t\<close> both times.\<close>

definition poll_at :: "real \<Rightarrow> snapshot \<Rightarrow> poll" where
  "poll_at t snap = \<lparr>t_loop = t, view = snap, t_now = t\<rparr>"

text \<open>
  Six polls, 0.2 seconds apart from 0 to 1: \<open>a.stl\<close> alone in the first five, the second
  file beside it in the sixth.
\<close>

definition swap_polls :: "poll list" where
  "swap_polls = [poll_at 0 snap_a, poll_at (1/5) snap_a, poll_at (2/5) snap_a,
     poll_at (3/5) snap_a, poll_at (4/5) snap_a, poll_at 1 snap_ab]"

definition grown_polls :: "poll list" where
  "grown_polls = [poll_at 0 snap_a, poll_at (1/5) snap_a, poll_at (2/5) snap_a,
     poll_at (3/5) snap_a, poll_at (4/5) snap_a, poll_at 1 snap_ab_grown]"

text \<open>Six polls in which \<open>a.stl\<close> alone is seen, unchanged.\<close>

definition steady_polls :: "poll list" where
  "steady_polls = [poll_at 0 snap_a, poll_at (1/5) snap_a, poll_at (2/5) snap_a,
     poll_at (3/5) snap_a, poll_at (4/5) snap_a, poll_at 1 snap_a]"

text \<open>
  A batch of two fonts and three phrases. The font directory also holds a text file.
  The phrase file has a comment and a blank line. Every attempt finds \<open>tmp\<close> empty
  before the click and then sees \<open>a.stl\<close> arrive and stay unchanged; \<open>set_phrase\<close>
  raises for the second phrase of the first font, and nothing else fails.
\<close>

definition font_1 :: path where
  "font_1 = [cps ''fonts'', cps ''Alpha.ttf'']"

definition font_2 :: path where
  "font_2 = [cps ''fonts'', cps ''sub'', cps ''Beta.TTF'']"

definition demo_args :: args where
  "demo_args = \<lparr>a_fonts = d_fonts, a_output = d_out, a_tmp = d_tmp,
     a_phrases = [cps ''phrases.txt''], a_download_timeout = 180\<rparr>"

definition demo_fonts :: snapshot where
  "demo_fonts = \<lparr>entries = [font_2, [cps ''fonts'', cps ''sub''], font_1,
       [cps ''fonts'', cps ''notes.txt'']],
     is_file = (\<lambda>p. p \<noteq> [cps ''fonts'', cps ''sub'']), st_mtime = (\<lambda>p. 0),
     st_size = (\<lambda>p. 0)\<rparr>"

definition demo_phrases :: phrase_file where
  "demo_phrases = Content (cps ''# three phrases'' @ [10] @ cps ''one'' @ [10, 10]
     @ cps ''  two words '' @ [10] @ cps ''3!'' @ [10])"

definition empty_snapshot :: snapshot where
  "empty_snapshot = \<lparr>entries = [], is_file = (\<lambda>p. False), st_mtime = (\<lambda>p. 0),
     st_size = (\<lambda>p. 0)\<rparr>"

definition demo_attempt :: "path \<Rightarrow> nat \<Rightarrow> nat attempt" where
  "demo_attempt f j = \<lparr>at_set_phrase = (if f = font_1 \<and> j = 1 then Some (External 7) else None),
     at_before = empty_snapshot, at_click = None, at_start = 0, at_polls = steady_polls,
     at_downloads = [(cps ''a.stl'', j)]\<rparr>"

definition demo_env :: "nat env" where
  "demo_env = \<lparr>e_phrase_file = demo_phrases, e_make_driver = None, e_fonts = demo_fonts,
     e_font = (\<lambda>f. \<lparr>fe_get = None, fe_ready = None, fe_upload = None\<rparr>),
     e_attempt = demo_attempt, e_quit = None\<rparr>"

text \<open>The same batch with an empty font directory.\<close>

definition no_fonts_env :: "nat env" where
  "no_fonts_env = demo_env\<lparr>e_fonts := empty_snapshot\<rparr>"

text \<open>A file system with \<open>out/a.stl\<close> and \<open>out/a_01.stl\<close> taken, and a download to move.\<close>

definition taken_files :: "nat fs" where
  "taken_files = (\<lambda>p. if p = [cps ''out'', cps ''a.stl''] then Some 1
     else if p = [cps ''out'', cps ''a_01.stl''] then Some 2
     else if p = file_a then Some 3 else None)"

text \<open>The batch of two fonts and three phrases in which \<open>wait_for_ui_ready\<close> raises for the
  first font.\<close>

definition setup_fail_env :: "nat env" where
  "setup_fail_env = demo_env\<lparr>e_font := (\<lambda>f. \<lparr>fe_get = None,
     fe_ready = (if f = font_1 then Some (External 9) else None), fe_upload = None\<rparr>)\<rparr>"

text \<open>
  A batch of one font and the two phrases \<open>a b\<close> and \<open>a_b\<close>, which are sanitized to the
  same stem. Nothing fails in \<open>collision_env False\<close>; in \<open>collision_env True\<close> the only
  difference is that \<open>set_phrase\<close> raises for the first phrase.
\<close>

definition font_f :: path where
  "font_f = [cps ''fonts'', cps ''F.ttf'']"

definition collision_fonts :: snapshot where
  "collision_fonts = \<lparr>entries = [font_f], is_file = (\<lambda>p. True), st_mtime = (\<lambda>p. 0),
     st_size = (\<lambda>p. 0)\<rparr>"

definition collision_phrases :: phrase_file where
  "collision_phrases = Content (cps ''a b'' @ [10] @ cps ''a_b'' @ [10])"

definition collision_env :: "bool \<Rightarrow> nat env" where
  "collision_env fails = demo_env\<lparr>e_phrase_file := collision_phrases,
     e_fonts := collision_fonts,
     e_attempt := (\<lambda>f j. (demo_attempt f j)\<lparr>at_set_phrase :=
        (if fails \<and> j = 0 then Some (External 7) else None)\<rparr>)\<rparr>"

section \<open>Properties of the name sanitizer\<close>

lemmas str_ev = cps_def strip_def strip_by_def isspace_def allowed_def word_char_def
  ascii_alnum_def ascii_allowed_def slice_to_def sanitize_stem_def latin1_def latin1_alnum_def

lemma cps_item: "cps ''item'' = [105, 116, 101, 109]"
  by (simp add: cps_def)

lemma sub_runs_mem: "c \<in> set (sub_runs P s) \<Longrightarrow> c = 95 \<or> (c \<in> set s \<and> \<not> P c)"
  by (induction P s rule: sub_runs.induct) (auto split: if_splits dest: set_dropWhileD)

lemma length_sub_runs: "length (sub_runs P s) \<le> length s"
proof (induction P s rule: sub_runs.induct)
  case (1 P)
  then show ?case by simp
next
  case (2 P c cs)
  have "length (dropWhile P cs) \<le> length cs" by (rule length_dropWhile_le)
  with 2 show ?case by (auto split: if_splits)
qed

lemma sub_runs_id: "\<forall>c\<in>set s. \<not> P c \<Longrightarrow> sub_runs P s = s"
  by (induction s) auto

lemma sub_runs_hd: "s \<noteq> [] \<Longrightarrow> \<not> P (hd s) \<Longrightarrow> sub_runs P s \<noteq> [] \<and> hd (sub_runs P s) = hd s"
  by (cases s) auto

lemma no_double_sub_runs: "no_double (sub_runs (\<lambda>c. c = 95) s)"
proof (induction "\<lambda>c::nat. c = 95" s rule: sub_runs.induct)
  case 1
  then show ?case by simp
next
  case (2 c cs)
  show ?case
  proof (cases "c = 95")
    case True
    let ?d = "dropWhile (\<lambda>c. c = 95) cs"
    have nd: "no_double (sub_runs (\<lambda>c. c = 95) ?d)" using 2 True by simp
    have eq: "sub_runs (\<lambda>c. c = 95) (c # cs) = 95 # sub_runs (\<lambda>c. c = 95) ?d"
      using True by simp
    show ?thesis
    proof (cases ?d)
      case Nil
      show ?thesis unfolding eq Nil by simp
    next
      case (Cons x xs)
      then have "x \<noteq> 95" using hd_dropWhile[of "\<lambda>c. c = 95" cs] by auto
      then show ?thesis using Cons nd unfolding eq by simp
    qed
  next
    case False
    then have nd: "no_double (sub_runs (\<lambda>c. c = 95) cs)" using 2 by simp
    show ?thesis using False nd by (cases "sub_runs (\<lambda>c. c = 95) cs") auto
  qed
qed

lemma no_double_id: "no_double s \<Longrightarrow> sub_runs (\<lambda>c. c = 95) s = s"
proof (induction s rule: no_double.induct)
  case 1
  then show ?case by simp
next
  case (2 a)
  then show ?case by simp
next
  case (3 a b cs)
  then show ?case by (cases "b = 95") auto
qed

lemma no_double_append: "no_double (xs @ ys) \<Longrightarrow> no_double xs \<and> no_double ys"
proof (induction xs rule: no_double.induct)
  case 1
  then show ?case by simp
next
  case (2 a)
  then show ?case by (cases ys) auto
next
  case (3 a b cs)
  then show ?case by auto
qed

lemma strip_by_decomp: "\<exists>a b. s = a @ strip_by P s @ b"
proof -
  let ?d = "dropWhile P s"
  have 1: "s = takeWhile P s @ ?d" by simp
  have "rev ?d = takeWhile P (rev ?d) @ dropWhile P (rev ?d)" by simp
  then have "?d = rev (dropWhile P (rev ?d)) @ rev (takeWhile P (rev ?d))"
    by (metis rev_append rev_rev_ident)
  then have "s = takeWhile P s @ strip_by P s @ rev (takeWhile P (rev ?d))"
    unfolding strip_by_def using 1 by metis
  then show ?thesis by blast
qed

lemma set_strip_by: "set (strip_by P s) \<subseteq> set s"
  using strip_by_decomp[of s P] by (metis Un_upper1 Un_upper2 set_append subset_trans)

lemma no_double_strip_by: "no_double s \<Longrightarrow> no_double (strip_by P s)"
  using strip_by_decomp[of s P] no_double_append by metis

lemma last_dropWhile: "dropWhile P xs \<noteq> [] \<Longrightarrow> last (dropWhile P xs) = last xs"
  by (induction xs) (auto split: if_splits)

lemma strip_by_ends:
  assumes "strip_by P s \<noteq> []"
  shows "\<not> P (hd (strip_by P s))" and "\<not> P (last (strip_by P s))"
proof -
  let ?d = "dropWhile P s"
  let ?e = "dropWhile P (rev ?d)"
  from assms have e: "?e \<noteq> []" by (simp add: strip_by_def)
  have d: "?d \<noteq> []"
  proof
    assume dn: "?d = []"
    have "?e = []" unfolding dn by simp
    with e show False by simp
  qed
  have "last (strip_by P s) = hd ?e" using e by (simp add: strip_by_def last_rev)
  moreover have "\<not> P (hd ?e)" using e hd_dropWhile by blast
  ultimately show "\<not> P (last (strip_by P s))" by simp
  have "hd (strip_by P s) = last ?e" using e by (simp add: strip_by_def hd_rev)
  also have "\<dots> = last (rev ?d)" using e by (rule last_dropWhile)
  also have "\<dots> = hd ?d" using d by (simp add: last_rev)
  finally show "\<not> P (hd (strip_by P s))" using d hd_dropWhile by metis
qed

lemma strip_by_id: "s \<noteq> [] \<Longrightarrow> \<not> P (hd s) \<Longrightarrow> \<not> P (last s) \<Longrightarrow> strip_by P s = s"
proof -
  assume a: "s \<noteq> []" "\<not> P (hd s)" "\<not> P (last s)"
  then have 1: "dropWhile P s = s" by (cases s) auto
  have "rev s \<noteq> []" "\<not> P (hd (rev s))" using a by (auto simp: hd_rev)
  then have "dropWhile P (rev s) = rev s" by (cases "rev s") auto
  with 1 show ?thesis by (simp add: strip_by_def)
qed

lemma slice_to_80: "slice_to 80 s = take 80 s"
  by (simp add: slice_to_def)

lemma allowed_ascii: "c < 128 \<Longrightarrow> allowed db c = ascii_allowed c"
  by (auto simp: allowed_def ascii_allowed_def word_char_def)

lemma allowed_95: "allowed db 95"
  by (simp add: allowed_def word_char_def)

lemma isspace_high:
  assumes "isspace c" "128 \<le> c"
  shows "c \<in> set [133, 160, 5760, 8192, 8193, 8194, 8195, 8196, 8197, 8198, 8199, 8200, 8201,
     8202, 8232, 8233, 8239, 8287, 12288]"
proof -
  have "8192 \<le> c \<and> c \<le> 8202 \<Longrightarrow> c = 8192 \<or> c = 8193 \<or> c = 8194 \<or> c = 8195 \<or> c = 8196
      \<or> c = 8197 \<or> c = 8198 \<or> c = 8199 \<or> c = 8200 \<or> c = 8201 \<or> c = 8202"
    by arith
  then show ?thesis using assms unfolding isspace_def by auto
qed

lemma allowed_not_space:
  assumes "ucd_ok db" "allowed db c"
  shows "\<not> isspace c"
proof (cases "c < 128")
  case True
  then show ?thesis using assms(2)
    by (auto simp: allowed_def word_char_def ascii_alnum_def isspace_def)
next
  case False
  show ?thesis
  proof
    assume "isspace c"
    then have "c \<in> set [133, 160, 5760, 8192, 8193, 8194, 8195, 8196, 8197, 8198, 8199, 8200,
        8201, 8202, 8232, 8233, 8239, 8287, 12288]"
      using False isspace_high by simp
    then have "\<not> uc_alnum db c"
      using assms(1) unfolding ucd_ok_def list_all_iff by blast
    then show False using assms(2) False by (simp add: allowed_def word_char_def)
  qed
qed

lemma sanitize_stem_shape:
  "\<exists>n. (\<forall>m. sanitize_stem db s m = slice_to m n) \<and> n \<noteq> [] \<and> (\<forall>c\<in>set n. allowed db c)
     \<and> no_double n \<and> hd n \<noteq> 95 \<and> last n \<noteq> 95 \<and> length n \<le> max 4 (length s)
     \<and> ((\<forall>c\<in>set s. c < 128) \<longrightarrow> (\<forall>c\<in>set n. c < 128))"
proof -
  define n1 where "n1 = strip s"
  define n2 where "n2 = sub_runs (\<lambda>c. \<not> allowed db c) n1"
  define n3 where "n3 = sub_runs (\<lambda>c. c = 95) n2"
  define t where "t = strip_by (\<lambda>c. c = 95) n3"
  define n where "n = (if t = [] then cps ''item'' else t)"
  have san: "\<forall>m. sanitize_stem db s m = slice_to m n"
    by (simp add: sanitize_stem_def Let_def n_def t_def n3_def n2_def n1_def)
  have s1: "set n1 \<subseteq> set s" unfolding n1_def strip_def by (rule set_strip_by)
  have l1: "length n1 \<le> length s"
    using strip_by_decomp[of s isspace] unfolding n1_def strip_def
    by (metis le_add1 le_add2 le_trans length_append)
  have a2: "\<forall>c\<in>set n2. allowed db c"
    unfolding n2_def using sub_runs_mem[of _ "\<lambda>c. \<not> allowed db c" n1] allowed_95 by blast
  have s2: "set n2 \<subseteq> set n1 \<union> {95}"
    unfolding n2_def using sub_runs_mem[of _ "\<lambda>c. \<not> allowed db c" n1] by blast
  have s3: "set n3 \<subseteq> set n2 \<union> {95}"
    unfolding n3_def using sub_runs_mem[of _ "\<lambda>c. c = 95" n2] by blast
  have st: "set t \<subseteq> set n3" unfolding t_def by (rule set_strip_by)
  have lt: "length t \<le> length n3"
    using strip_by_decomp[of n3 "\<lambda>c. c = 95"] unfolding t_def
    by (metis le_add1 le_add2 le_trans length_append)
  have l3: "length n3 \<le> length n1"
    unfolding n3_def n2_def using length_sub_runs le_trans by blast
  have ndt: "no_double t" unfolding t_def n3_def
    by (rule no_double_strip_by) (rule no_double_sub_runs)
  have at: "\<forall>c\<in>set t. allowed db c" using st s3 a2 allowed_95 by blast
  have sub: "set t \<subseteq> set s \<union> {95}" using st s3 s2 s1 by blast
  show ?thesis
  proof (cases "t = []")
    case True
    then have n: "n = [105, 116, 101, 109]" by (simp add: n_def cps_item)
    have "\<forall>c\<in>set n. allowed db c"
      unfolding n by (simp add: allowed_def word_char_def ascii_alnum_def)
    moreover have "\<forall>c\<in>set n. c < 128" unfolding n by simp
    ultimately show ?thesis using san n by (intro exI[of _ n]) simp
  next
    case False
    then have n: "n = t" by (simp add: n_def)
    have "hd t \<noteq> 95" "last t \<noteq> 95"
      using strip_by_ends[of "\<lambda>c. c = 95" n3] False unfolding t_def by auto
    moreover have "length t \<le> max 4 (length s)" using lt l3 l1 by simp
    moreover have "(\<forall>c\<in>set s. c < 128) \<longrightarrow> (\<forall>c\<in>set t. c < 128)" using sub by auto
    ultimately show ?thesis using san n False at ndt by (intro exI[of _ t]) simp
  qed
qed

text \<open>
  Claim C5, as amended. With the default \<open>max_len\<close> of 80, \<open>sanitize_stem\<close> returns for every
  string a non-empty string of at most 80 code points, each of them a word character of
  \<open>\w\<close> (an alphanumeric code point of any script, or the underscore), a hyphen or a dot.
  When the input is ASCII, every code point of the result lies in \<open>[A-Za-z0-9_.-]\<close>.
\<close>

theorem sanitize_stem_charset:
  "sanitize_stem db s 80 \<noteq> [] \<and> length (sanitize_stem db s 80) \<le> 80
   \<and> (\<forall>c\<in>set (sanitize_stem db s 80). allowed db c)
   \<and> ((\<forall>c\<in>set s. c < 128) \<longrightarrow> (\<forall>c\<in>set (sanitize_stem db s 80). ascii_allowed c))"
proof -
  obtain n where n: "sanitize_stem db s 80 = take 80 n" "n \<noteq> []" "\<forall>c\<in>set n. allowed db c"
    "(\<forall>c\<in>set s. c < 128) \<longrightarrow> (\<forall>c\<in>set n. c < 128)"
    using sanitize_stem_shape[of db s] slice_to_80 by metis
  have sub: "set (take 80 n) \<subseteq> set n" by (rule set_take_subset)
  have 1: "take 80 n \<noteq> []" using n(2) by (cases n) auto
  have 2: "\<forall>c\<in>set (take 80 n). allowed db c" using n(3) sub by blast
  have 3: "(\<forall>c\<in>set s. c < 128) \<longrightarrow> (\<forall>c\<in>set (take 80 n). ascii_allowed c)"
    using n(3,4) sub allowed_ascii by blast
  show ?thesis unfolding n(1) using 1 2 3 by simp
qed

lemma no_double_snoc: "no_double (u @ [95]) \<Longrightarrow> u \<noteq> [] \<Longrightarrow> last u \<noteq> 95"
proof (induction u rule: no_double.induct)
  case 1
  then show ?case by simp
next
  case (2 a)
  then show ?case by auto
next
  case (3 a b cs)
  then show ?case by auto
qed

lemma strip_by_snoc:
  assumes "u \<noteq> []" "\<not> P (hd u)" "\<not> P (last u)" "P x"
  shows "strip_by P (u @ [x]) = u"
proof -
  have 1: "dropWhile P (u @ [x]) = u @ [x]" using assms(1,2) by (cases u) auto
  have "rev u \<noteq> []" "\<not> P (hd (rev u))" using assms(1,3) by (auto simp: hd_rev)
  then have "dropWhile P (rev u) = rev u" by (cases "rev u") auto
  then show ?thesis unfolding strip_by_def 1 using assms(4) by simp
qed

text \<open>What a second application does to a result \<open>t\<close> of the first.\<close>

lemma sanitize_stem_again:
  assumes ok: "ucd_ok db" and t: "t \<noteq> []" "\<forall>c\<in>set t. allowed db c" "no_double t"
    "hd t \<noteq> 95" "length t \<le> 80"
  shows "sanitize_stem db t 80 = (if last t = 95 then butlast t else t)"
proof -
  have hd_in: "hd t \<in> set t" and last_in: "last t \<in> set t" using t(1) by auto
  have "\<not> isspace (hd t)" "\<not> isspace (last t)"
    using allowed_not_space[OF ok] t(2) hd_in last_in by auto
  then have 1: "strip t = t" unfolding strip_def using t(1) by (intro strip_by_id) auto
  have 2: "sub_runs (\<lambda>c. \<not> allowed db c) t = t" using t(2) by (intro sub_runs_id) simp
  have 3: "sub_runs (\<lambda>c. c = 95) t = t" using t(3) by (rule no_double_id)
  have san: "sanitize_stem db t 80 =
      take 80 (let u = strip_by (\<lambda>c. c = 95) t in if u = [] then cps ''item'' else u)"
    by (simp add: sanitize_stem_def 1 2 3 slice_to_80)
  show ?thesis
  proof (cases "last t = 95")
    case False
    then have "strip_by (\<lambda>c. c = 95) t = t" using t(1,4) by (intro strip_by_id) auto
    then show ?thesis using san False t(1,5) by simp
  next
    case True
    define u where "u = butlast t"
    have tu: "t = u @ [95]" using True t(1) unfolding u_def by (metis append_butlast_last_id)
    have une: "u \<noteq> []" using tu t(4) by (cases u) auto
    have hu: "hd u \<noteq> 95" using tu t(4) une by (cases u) auto
    have lu: "last u \<noteq> 95" using no_double_snoc t(3) tu une by blast
    have "strip_by (\<lambda>c. c = 95) t = u" unfolding tu using une hu lu by (intro strip_by_snoc) auto
    moreover have "length u \<le> 80" using t(5) tu by simp
    ultimately show ?thesis using san True une unfolding u_def by simp
  qed
qed

lemma no_double_take: "no_double s \<Longrightarrow> no_double (take k s)"
  using no_double_append[of "take k s" "drop k s"] by simp

lemma sanitize_stem_twice:
  assumes ok: "ucd_ok db"
  shows "sanitize_stem db (sanitize_stem db s 80) 80 =
     (if last (sanitize_stem db s 80) = 95 then butlast (sanitize_stem db s 80)
      else sanitize_stem db s 80)"
proof -
  obtain n where n: "sanitize_stem db s 80 = take 80 n" "n \<noteq> []" "\<forall>c\<in>set n. allowed db c"
    "no_double n" "hd n \<noteq> 95"
    using sanitize_stem_shape[of db s] slice_to_80 by metis
  let ?t = "take 80 n"
  have 1: "?t \<noteq> []" using n(2) by (cases n) auto
  have 2: "\<forall>c\<in>set ?t. allowed db c" using n(3) set_take_subset[of 80 n] by blast
  have 3: "no_double ?t" using n(4) by (rule no_double_take)
  have 4: "hd ?t \<noteq> 95" using n(2,5) by (cases n) auto
  have 5: "length ?t \<le> 80" by simp
  show ?thesis unfolding n(1) using sanitize_stem_again[OF ok 1 2 3 4 5] .
qed

lemma sanitize_stem_short:
  assumes "length s \<le> 80"
  shows "last (sanitize_stem db s 80) \<noteq> 95"
proof -
  obtain n where n: "sanitize_stem db s 80 = take 80 n" "last n \<noteq> 95" "length n \<le> max 4 (length s)"
    using sanitize_stem_shape[of db s] slice_to_80 by metis
  have "length n \<le> 80" using n(3) assms by simp
  then show ?thesis using n(1,2) by simp
qed

text \<open>
  Claim C6, as amended. A second application of \<open>sanitize_stem\<close> (both with the default
  \<open>max_len\<close> of 80) returns the result of the first whenever that result does not end in an
  underscore, which is the case for every input of at most 80 code points. (The
  truncation to 80 code points is the last step, so it can leave an underscore at the
  end, which a second application strips: see \<open>sanitize_stem_twice\<close>.)
\<close>

theorem sanitize_stem_idempotent_untruncated:
  assumes "ucd_ok db" and "length s \<le> 80 \<or> last (sanitize_stem db s 80) \<noteq> 95"
  shows "sanitize_stem db (sanitize_stem db s 80) 80 = sanitize_stem db s 80"
proof -
  have "last (sanitize_stem db s 80) \<noteq> 95" using assms(2) sanitize_stem_short by blast
  then show ?thesis using sanitize_stem_twice[OF assms(1), of s] by simp
qed

lemma ucd_ok_latin1: "ucd_ok latin1"
  by (simp add: ucd_ok_def latin1_def latin1_alnum_def)

text \<open>
  Claim C5 at the input \<open>Hello, World! / 2024\<close>, which is ASCII: the result is
  \<open>Hello_World_2024\<close>.
\<close>

theorem sanitize_stem_charset_witness:
  "list_all (\<lambda>c. c < 128) (cps ''Hello, World! / 2024'')
   \<and> sanitize_stem latin1 (cps ''Hello, World! / 2024'') 80 = cps ''Hello_World_2024''
   \<and> list_all ascii_allowed (sanitize_stem latin1 (cps ''Hello, World! / 2024'') 80)"
  using sanitize_stem_charset[of latin1 "cps ''Hello, World! / 2024''"]
  by (simp add: str_ev)

text \<open>
  Claim C5 as stated fails at the one-letter string U+00E9 (e with acute): \<open>\w\<close> matches
  it, so it is returned as it is, and it is not in \<open>[A-Za-z0-9_.-]\<close>.
\<close>

theorem sanitize_stem_charset_counterexample:
  "sanitize_stem latin1 [233] 80 = [233] \<and> \<not> ascii_allowed 233"
  by (simp add: str_ev)

text \<open>
  Claim C6 as stated fails at the string of 79 letters \<open>a\<close> followed by \<open>_b\<close>: the first
  application cuts the \<open>b\<close> off and returns 79 letters and the underscore, the second
  strips that underscore.
\<close>

theorem sanitize_stem_idempotent_counterexample:
  "sanitize_stem latin1 (cps ''aaaaaaaaaaaaaaaaaaaaaaaaaaaaaaaaaaaaaaaaaaaaaaaaaaaaaaaaaaaaaaaaaaaaaaaaaaaaaaa_b'') 80 = cps ''aaaaaaaaaaaaaaaaaaaaaaaaaaaaaaaaaaaaaaaaaaaaaaaaaaaaaaaaaaaaaaaaaaaaaaaaaaaaaaa_''
   \<and> sanitize_stem latin1 (sanitize_stem latin1 (cps ''aaaaaaaaaaaaaaaaaaaaaaaaaaaaaaaaaaaaaaaaaaaaaaaaaaaaaaaaaaaaaaaaaaaaaaaaaaaaaaa_b'') 80) 80 = cps ''aaaaaaaaaaaaaaaaaaaaaaaaaaaaaaaaaaaaaaaaaaaaaaaaaaaaaaaaaaaaaaaaaaaaaaaaaaaaaaa''
   \<and> sanitize_stem latin1 (sanitize_stem latin1 (cps ''aaaaaaaaaaaaaaaaaaaaaaaaaaaaaaaaaaaaaaaaaaaaaaaaaaaaaaaaaaaaaaaaaaaaaaaaaaaaaaa_b'') 80) 80
       \<noteq> sanitize_stem latin1 (cps ''aaaaaaaaaaaaaaaaaaaaaaaaaaaaaaaaaaaaaaaaaaaaaaaaaaaaaaaaaaaaaaaaaaaaaaaaaaaaaaa_b'') 80"
  by (simp add: str_ev)

text \<open>Claim C6 at the input \<open>Hello, World! / 2024\<close>, which has 20 code points.\<close>

theorem sanitize_stem_idempotent_witness:
  "ucd_ok latin1 \<and> length (cps ''Hello, World! / 2024'') \<le> 80
   \<and> sanitize_stem latin1 (cps ''Hello, World! / 2024'') 80 = cps ''Hello_World_2024''
   \<and> sanitize_stem latin1 (sanitize_stem latin1 (cps ''Hello, World! / 2024'') 80) 80
       = cps ''Hello_World_2024''"
  using sanitize_stem_idempotent_untruncated[OF ucd_ok_latin1, of "cps ''Hello, World! / 2024''"]
    ucd_ok_latin1
  by (simp add: str_ev)

lemmas path_ev = name_of_def suffix_of_def stem_of_def py_lower_def endswith_def startswith_def
lemmas scen_ev = d_tmp_def d_out_def d_fonts_def file_a_def file_b_def snap_a_def snap_ab_def
  snap_ab_grown_def poll_at_def swap_polls_def grown_polls_def steady_polls_def font_1_def
  font_2_def demo_args_def demo_fonts_def demo_phrases_def empty_snapshot_def demo_attempt_def
  demo_env_def no_fonts_env_def taken_files_def

section \<open>Properties of the phrase loader\<close>

lemma collect_phrases_filter:
  "collect_phrases acc ls =
     acc @ filter (\<lambda>s. s \<noteq> [] \<and> \<not> startswith s [35]) (map strip ls)"
  by (induction ls arbitrary: acc) (auto simp: Let_def)

lemma split_lines_break:
  "is_linebreak c \<Longrightarrow> c \<noteq> 13 \<or> rest = [] \<or> hd rest \<noteq> 10
     \<Longrightarrow> split_lines cur (c # rest) = cur # split_lines [] rest"
  by (cases rest) auto

lemma split_lines_char:
  "\<not> is_linebreak c \<Longrightarrow> split_lines cur (c # rest) = split_lines (cur @ [c]) rest"
  by (cases rest) (auto simp: is_linebreak_def)

lemma is_linebreak_10: "is_linebreak 10" and is_linebreak_13: "is_linebreak 13"
  by (simp_all add: is_linebreak_def)

lemma universal_newlines_hd:
  "universal_newlines (d # cs) \<noteq> [] \<and> hd (universal_newlines (d # cs)) = (if d = 13 then 10 else d)"
  by (cases cs) auto

text \<open>Text mode does not change what \<open>splitlines\<close> returns.\<close>

lemma split_lines_universal:
  "split_lines cur (universal_newlines t) = split_lines cur t"
proof (induction t arbitrary: cur rule: universal_newlines.induct)
  case 1
  then show ?case by simp
next
  case (2 c)
  then show ?case by (simp add: is_linebreak_def)
next
  case (3 c d cs)
  show ?case
  proof (cases "c = 13")
    case True
    show ?thesis
    proof (cases "d = 10")
      case d: True
      have "split_lines cur (universal_newlines (c # d # cs))
          = split_lines cur (10 # universal_newlines cs)" using True d by simp
      also have "\<dots> = cur # split_lines [] (universal_newlines cs)"
        by (rule split_lines_break) (simp_all add: is_linebreak_10)
      also have "\<dots> = cur # split_lines [] cs" using 3(1) True d by simp
      finally show ?thesis using True d by simp
    next
      case d: False
      have "split_lines cur (universal_newlines (c # d # cs))
          = split_lines cur (10 # universal_newlines (d # cs))" using True d by simp
      also have "\<dots> = cur # split_lines [] (universal_newlines (d # cs))"
        by (rule split_lines_break) (simp_all add: is_linebreak_10)
      also have "\<dots> = cur # split_lines [] (d # cs)" using 3(2) True d by simp
      finally show ?thesis using True d by (simp add: is_linebreak_13)
    qed
  next
    case False
    have un: "universal_newlines (c # d # cs) = c # universal_newlines (d # cs)"
      using False by simp
    show ?thesis
    proof (cases "is_linebreak c")
      case lb: True
      have "split_lines cur (c # universal_newlines (d # cs))
          = cur # split_lines [] (universal_newlines (d # cs))"
        using lb False by (intro split_lines_break) simp_all
      also have "\<dots> = cur # split_lines [] (d # cs)" using 3(3) False by simp
      finally show ?thesis unfolding un using lb False by simp
    next
      case lb: False
      have "split_lines cur (c # universal_newlines (d # cs))
          = split_lines (cur @ [c]) (universal_newlines (d # cs))"
        using lb by (rule split_lines_char)
      also have "\<dots> = split_lines (cur @ [c]) (d # cs)" using 3(3) False by simp
      finally show ?thesis unfolding un using lb False by simp
    qed
  qed
qed

lemma splitlines_universal: "splitlines (universal_newlines t) = splitlines t"
  by (simp add: splitlines_def split_lines_universal)

text \<open>
  Claim C10. For a file that can be read, \<open>load_phrases\<close> returns the stripped lines that
  are not empty and do not start with \<open>#\<close> (code point 35) after stripping, in the order
  of the file and with repetitions kept; a missing file gives the empty list (and a
  printed error), not an exception. In the example the comment is indented and the
  phrase \<open>hello\<close> occurs twice.
\<close>

theorem load_phrases_lines:
  "(\<exists>evs. load_phrases p (Content t)
       = Inr (filter (\<lambda>s. s \<noteq> [] \<and> \<not> startswith s [35]) (map strip (splitlines t)), evs))
   \<and> load_phrases p NoFile = Inr ([], [EvPhraseFileNotFound p])
   \<and> load_phrases p (Content (cps ''  # note'' @ [10] @ cps ''hello'' @ [13, 10, 10]
         @ cps '' hello '' @ [10] @ cps ''#x''))
       = Inr ([cps ''hello'', cps ''hello''], [])"
proof -
  have 1: "\<exists>evs. load_phrases p (Content t)
       = Inr (filter (\<lambda>s. s \<noteq> [] \<and> \<not> startswith s [35]) (map strip (splitlines t)), evs)"
    by (simp add: load_phrases_def Let_def collect_phrases_filter splitlines_universal)
  have 3: "load_phrases p NoFile = Inr ([], [EvPhraseFileNotFound p])"
    by (simp add: load_phrases_def)
  have 4: "load_phrases p (Content (cps ''  # note'' @ [10] @ cps ''hello'' @ [13, 10, 10]
         @ cps '' hello '' @ [10] @ cps ''#x''))
       = Inr ([cps ''hello'', cps ''hello''], [])"
    by (simp add: load_phrases_def Let_def splitlines_def is_linebreak_def startswith_def
        cps_def strip_def strip_by_def isspace_def)
  show ?thesis using 1 3 4 by blast
qed

section \<open>Properties of the font enumeration\<close>

lemma yielded_iter_items:
  "yielded (iter_items db snap ps) = filter (\<lambda>p. is_file snap p \<and> is_ttf db p) ps"
  by (induction ps) auto

lemma warned_iter_items:
  "warned (iter_items db snap ps) = filter (\<lambda>p. is_file snap p \<and> \<not> is_ttf db p) ps"
  by (induction ps) auto

lemma sort_cong_mset: "mset xs = mset ys \<Longrightarrow> sort xs = sort ys"
  by (metis properties_for_sort sorted_sort mset_sort)

text \<open>
  Claim C9. The fonts \<open>iter_ttf_fonts\<close> yields are the regular files below the font
  directory whose suffix lowers to \<open>.ttf\<close>, in sorted path order; the regular files
  with another suffix are those it warns about, and nothing makes it fail. The
  result depends on the directory tree only, not on the order in which the operating
  system lists it.
\<close>

theorem iter_ttf_fonts_sorted:
  "yielded (iter_ttf_fonts db snap d)
     = filter (\<lambda>p. is_file snap p \<and> is_ttf db p) (sort (rglob_star d snap))
   \<and> warned (iter_ttf_fonts db snap d)
     = filter (\<lambda>p. is_file snap p \<and> \<not> is_ttf db p) (sort (rglob_star d snap))
   \<and> sorted (yielded (iter_ttf_fonts db snap d))
   \<and> set (yielded (iter_ttf_fonts db snap d))
     = {p \<in> set (entries snap). length d < length p \<and> take (length d) p = d
          \<and> is_file snap p \<and> is_ttf db p}
   \<and> (mset (entries snap') = mset (entries snap) \<and> is_file snap' = is_file snap
        \<longrightarrow> iter_ttf_fonts db snap' d = iter_ttf_fonts db snap d)
   \<and> is_ttf db [cps ''fonts'', cps ''MyFont.ttf''] \<and> is_ttf db [cps ''fonts'', cps ''B.TtF'']
   \<and> \<not> is_ttf db [cps ''fonts'', cps ''notes.txt''] \<and> \<not> is_ttf db [cps ''fonts'', cps ''.ttf'']"
proof -
  let ?fonts = "yielded (iter_ttf_fonts db snap d)"
  have 1: "?fonts = filter (\<lambda>p. is_file snap p \<and> is_ttf db p) (sort (rglob_star d snap))"
    by (simp add: iter_ttf_fonts_def yielded_iter_items)
  have 2: "warned (iter_ttf_fonts db snap d)
     = filter (\<lambda>p. is_file snap p \<and> \<not> is_ttf db p) (sort (rglob_star d snap))"
    by (simp add: iter_ttf_fonts_def warned_iter_items)
  have 3: "sorted ?fonts" unfolding 1 by (simp add: sorted_wrt_filter)
  have 4: "set ?fonts = {p \<in> set (entries snap). length d < length p \<and> take (length d) p = d
          \<and> is_file snap p \<and> is_ttf db p}"
    unfolding 1 by (auto simp: rglob_star_def)
  have 5: "mset (entries snap') = mset (entries snap) \<and> is_file snap' = is_file snap
        \<longrightarrow> iter_ttf_fonts db snap' d = iter_ttf_fonts db snap d"
  proof
    assume a: "mset (entries snap') = mset (entries snap) \<and> is_file snap' = is_file snap"
    then have "mset (rglob_star d snap') = mset (rglob_star d snap)"
      by (simp add: rglob_star_def)
    then have "sort (rglob_star d snap') = sort (rglob_star d snap)" by (rule sort_cong_mset)
    moreover have "iter_items db snap' ps = iter_items db snap ps" for ps
      using a by (induction ps) auto
    ultimately show "iter_ttf_fonts db snap' d = iter_ttf_fonts db snap d"
      by (simp add: iter_ttf_fonts_def)
  qed
  have 6: "is_ttf db [cps ''fonts'', cps ''MyFont.ttf'']" "is_ttf db [cps ''fonts'', cps ''B.TtF'']"
    "\<not> is_ttf db [cps ''fonts'', cps ''notes.txt'']" "\<not> is_ttf db [cps ''fonts'', cps ''.ttf'']"
    by (simp_all add: is_ttf_def path_ev cps_def)
  show ?thesis using 1 2 3 4 5 6 by blast
qed

text \<open>
  Claim C9 on a tree with two fonts, a text file and a directory, listed in two
  different orders.
\<close>

theorem iter_ttf_fonts_sorted_witness:
  "mset (entries (demo_fonts\<lparr>entries := rev (entries demo_fonts)\<rparr>)) = mset (entries demo_fonts)
   \<and> is_file (demo_fonts\<lparr>entries := rev (entries demo_fonts)\<rparr>) = is_file demo_fonts
   \<and> iter_ttf_fonts latin1 (demo_fonts\<lparr>entries := rev (entries demo_fonts)\<rparr>) d_fonts
       = iter_ttf_fonts latin1 demo_fonts d_fonts
   \<and> iter_ttf_fonts latin1 demo_fonts d_fonts
       = [Yield font_1, Warn [cps ''fonts'', cps ''notes.txt''], Yield font_2]"
proof -
  have "iter_ttf_fonts latin1 demo_fonts d_fonts
       = [Yield font_1, Warn [cps ''fonts'', cps ''notes.txt''], Yield font_2]"
    by (simp add: iter_ttf_fonts_def rglob_star_def is_ttf_def path_ev scen_ev cps_def)
  then show ?thesis
    using iter_ttf_fonts_sorted[of latin1 demo_fonts d_fonts
        "demo_fonts\<lparr>entries := rev (entries demo_fonts)\<rparr>"]
    by simp
qed

section \<open>Properties of the collision-safe move\<close>

lemma move_Inr:
  "move files src dst = Inr (files', p)
     \<Longrightarrow> p = dst \<and> (\<exists>c. files src = Some c \<and> files' = (files(src := None))(dst := Some c))"
  by (auto simp: move_def split: option.splits)

lemma move_Some:
  "files src = Some c \<Longrightarrow> move files src dst = Inr ((files(src := None))(dst := Some c), dst)"
  by (simp add: move_def)

lemma try_taken:
  "k < 10000 \<Longrightarrow> name_of dst \<noteq> [] \<Longrightarrow> files (candidate dst k) \<noteq> None
     \<Longrightarrow> try_candidates files src dst k = try_candidates files src dst (Suc k)"
  by (subst try_candidates.simps) auto

lemma try_free:
  "k < 10000 \<Longrightarrow> name_of dst \<noteq> [] \<Longrightarrow> files (candidate dst k) = None
     \<Longrightarrow> try_candidates files src dst k = move files src (candidate dst k)"
  by (subst try_candidates.simps) simp

lemma try_end: "\<not> k < 10000 \<Longrightarrow> try_candidates files src dst k = Inl RuntimeError"
  by (subst try_candidates.simps) simp

lemma try_noname:
  "k < 10000 \<Longrightarrow> name_of dst = [] \<Longrightarrow> try_candidates files src dst k = Inl ValueError"
  by (subst try_candidates.simps) simp

lemma try_candidates_first:
  assumes "name_of dst \<noteq> []" "files (candidate dst i) = None" "i < 10000"
  shows "k \<le> i \<Longrightarrow> \<forall>j. k \<le> j \<and> j < i \<longrightarrow> files (candidate dst j) \<noteq> None
     \<Longrightarrow> try_candidates files src dst k = move files src (candidate dst i)"
proof (induction "i - k" arbitrary: k)
  case 0
  then have "k = i" by simp
  then show ?case using assms by (simp add: try_free)
next
  case (Suc n)
  then have lt: "k < i" by simp
  then have taken: "files (candidate dst k) \<noteq> None" using Suc.prems by blast
  have n: "n = i - Suc k" using Suc.hyps(2) by simp
  have "\<forall>j. Suc k \<le> j \<and> j < i \<longrightarrow> files (candidate dst j) \<noteq> None"
    using Suc.prems(2) by (simp add: Suc_le_eq)
  then have "try_candidates files src dst (Suc k) = move files src (candidate dst i)"
    using Suc.hyps(1)[OF n] lt by simp
  moreover have "k < 10000" using lt assms(3) by simp
  ultimately show ?case using try_taken[of k dst files src] assms(1) taken by simp
qed

lemma try_candidates_exhausted:
  assumes "name_of dst \<noteq> []"
  shows "\<forall>j. k \<le> j \<and> j < 10000 \<longrightarrow> files (candidate dst j) \<noteq> None
     \<Longrightarrow> try_candidates files src dst k = Inl RuntimeError"
proof (induction "10000 - k" arbitrary: k)
  case 0
  then show ?case by (simp add: try_end)
next
  case (Suc n)
  then have lt: "k < 10000" by simp
  then have taken: "files (candidate dst k) \<noteq> None" using Suc.prems by blast
  have n: "n = 10000 - Suc k" using Suc.hyps(2) by simp
  have "\<forall>j. Suc k \<le> j \<and> j < 10000 \<longrightarrow> files (candidate dst j) \<noteq> None"
    using Suc.prems by (simp add: Suc_le_eq)
  then have "try_candidates files src dst (Suc k) = Inl RuntimeError"
    using Suc.hyps(1)[OF n] by simp
  then show ?case using try_taken[of k dst files src] lt assms taken by simp
qed

lemma try_candidates_Inr:
  "try_candidates files src dst k = Inr (files', p)
     \<Longrightarrow> \<exists>i. k \<le> i \<and> i < 10000 \<and> p = candidate dst i \<and> files p = None
           \<and> move files src p = Inr (files', p)"
proof (induction "10000 - k" arbitrary: k)
  case 0
  then have "\<not> k < 10000" by simp
  then show ?case using "0.prems" by (simp add: try_end)
next
  case (Suc n)
  then have lt: "k < 10000" by simp
  have n: "n = 10000 - Suc k" using Suc.hyps(2) by simp
  show ?case
  proof (cases "name_of dst = []")
    case True
    then show ?thesis using Suc.prems lt by (simp add: try_noname)
  next
    case False
    show ?thesis
    proof (cases "files (candidate dst k) = None")
      case free: True
      then have m: "move files src (candidate dst k) = Inr (files', p)"
        using Suc.prems lt False by (simp add: try_free)
      then have "p = candidate dst k" using move_Inr by blast
      then show ?thesis using m free lt by auto
    next
      case taken: False
      then have "try_candidates files src dst (Suc k) = Inr (files', p)"
        using Suc.prems try_taken[of k dst files src] lt False taken by simp
      then obtain i where "Suc k \<le> i" "i < 10000" "p = candidate dst i" "files p = None"
        "move files src p = Inr (files', p)"
        using Suc.hyps(1)[OF n] by blast
      then show ?thesis by (intro exI[of _ i]) simp
    qed
  qed
qed

text \<open>Where a successful \<open>safe_move\<close> puts the file, and what it changes.\<close>

lemma safe_move_Inr:
  assumes "safe_move files src dst = Inr (files', p)"
  shows "files p = None \<and> (p = dst \<or> (files dst \<noteq> None \<and> (\<exists>i. 1 \<le> i \<and> i < 10000 \<and> p = candidate dst i)))
     \<and> (\<exists>c. files src = Some c \<and> files' = (files(src := None))(p := Some c))"
proof (cases "files dst = None")
  case True
  then have "move files src dst = Inr (files', p)" using assms by (simp add: safe_move_def)
  then show ?thesis using move_Inr[of files src dst files' p] True by auto
next
  case False
  then have "try_candidates files src dst 1 = Inr (files', p)"
    using assms unfolding safe_move_def by (simp only: if_False)
  then obtain i where i: "1 \<le> i" "i < 10000" "p = candidate dst i" "files p = None"
    "move files src p = Inr (files', p)"
    using try_candidates_Inr by blast
  then show ?thesis using move_Inr[of files src p files' p] False by auto
qed

lemma candidate_a_stl:
  "candidate [cps ''out'', cps ''a.stl''] 1 = [cps ''out'', cps ''a_01.stl'']"
  "candidate [cps ''out'', cps ''a.stl''] 2 = [cps ''out'', cps ''a_02.stl'']"
  "candidate [cps ''out'', cps ''a.stl''] 9999 = [cps ''out'', cps ''a_9999.stl'']"
  "name_of [cps ''out'', cps ''a.stl''] \<noteq> []"
  by (simp_all add: candidate_def fmt02_def digits.simps path_ev cps_def)

text \<open>
  Claim C4. For a source that exists: when the destination does not exist the source is
  moved there and the destination is returned; otherwise the candidates with the
  suffixes \<open>_01\<close>, \<open>_02\<close>, ... are tried in increasing order and the source is moved to
  the first one that does not exist; when all 9999 candidates exist the call raises
  \<open>RuntimeError\<close>; a file that existed before other than the source is still there, with
  its content, wherever the source went. With \<open>out/a.stl\<close> taken the result is
  \<open>out/a_01.stl\<close>, and with that taken too it is \<open>out/a_02.stl\<close>.
\<close>

theorem safe_move_first_free:
  assumes "files src = Some c"
  shows "(files dst = None
       \<longrightarrow> safe_move files src dst = Inr ((files(src := None))(dst := Some c), dst))
   \<and> (files dst \<noteq> None \<and> name_of dst \<noteq> [] \<and> 1 \<le> i \<and> i < 10000
        \<and> files (candidate dst i) = None
        \<and> (\<forall>j. 1 \<le> j \<and> j < i \<longrightarrow> files (candidate dst j) \<noteq> None)
       \<longrightarrow> safe_move files src dst
           = Inr ((files(src := None))(candidate dst i := Some c), candidate dst i))
   \<and> (files dst \<noteq> None \<and> name_of dst \<noteq> []
        \<and> (\<forall>j. 1 \<le> j \<and> j < 10000 \<longrightarrow> files (candidate dst j) \<noteq> None)
       \<longrightarrow> safe_move files src dst = Inl RuntimeError)
   \<and> (\<forall>files' p q. safe_move files src dst = Inr (files', p) \<and> files q \<noteq> None \<and> q \<noteq> src
       \<longrightarrow> p \<noteq> q \<and> files' q = files q)
   \<and> (files [cps ''out'', cps ''a.stl''] \<noteq> None \<and> files [cps ''out'', cps ''a_01.stl''] = None
       \<longrightarrow> safe_move files src [cps ''out'', cps ''a.stl'']
           = Inr ((files(src := None))([cps ''out'', cps ''a_01.stl''] := Some c),
                  [cps ''out'', cps ''a_01.stl'']))
   \<and> (files [cps ''out'', cps ''a.stl''] \<noteq> None \<and> files [cps ''out'', cps ''a_01.stl''] \<noteq> None
        \<and> files [cps ''out'', cps ''a_02.stl''] = None
       \<longrightarrow> safe_move files src [cps ''out'', cps ''a.stl'']
           = Inr ((files(src := None))([cps ''out'', cps ''a_02.stl''] := Some c),
                  [cps ''out'', cps ''a_02.stl'']))"
proof -
  have first: "safe_move files src d
      = Inr ((files(src := None))(candidate d k := Some c), candidate d k)"
    if "files d \<noteq> None" "name_of d \<noteq> []" "1 \<le> k" "k < 10000" "files (candidate d k) = None"
      "\<forall>j. 1 \<le> j \<and> j < k \<longrightarrow> files (candidate d j) \<noteq> None" for d k
  proof -
    have "try_candidates files src d 1 = move files src (candidate d k)"
      using that by (intro try_candidates_first) auto
    moreover have "safe_move files src d = try_candidates files src d 1"
      using that(1) unfolding safe_move_def by (simp only: if_False)
    ultimately show ?thesis using assms by (simp add: move_Some)
  qed
  have 1: "files dst = None
       \<longrightarrow> safe_move files src dst = Inr ((files(src := None))(dst := Some c), dst)"
    using assms by (simp add: safe_move_def move_Some)
  have 2: "files dst \<noteq> None \<and> name_of dst \<noteq> [] \<and> 1 \<le> i \<and> i < 10000
        \<and> files (candidate dst i) = None
        \<and> (\<forall>j. 1 \<le> j \<and> j < i \<longrightarrow> files (candidate dst j) \<noteq> None)
       \<longrightarrow> safe_move files src dst
           = Inr ((files(src := None))(candidate dst i := Some c), candidate dst i)"
    using first by blast
  have 3: "files dst \<noteq> None \<and> name_of dst \<noteq> []
        \<and> (\<forall>j. 1 \<le> j \<and> j < 10000 \<longrightarrow> files (candidate dst j) \<noteq> None)
       \<longrightarrow> safe_move files src dst = Inl RuntimeError"
  proof
    assume a: "files dst \<noteq> None \<and> name_of dst \<noteq> []
        \<and> (\<forall>j. 1 \<le> j \<and> j < 10000 \<longrightarrow> files (candidate dst j) \<noteq> None)"
    then have "try_candidates files src dst 1 = Inl RuntimeError"
      by (intro try_candidates_exhausted) auto
    moreover have "safe_move files src dst = try_candidates files src dst 1"
      using a unfolding safe_move_def by (simp only: if_False)
    ultimately show "safe_move files src dst = Inl RuntimeError" by simp
  qed
  have 4: "\<forall>files' p q. safe_move files src dst = Inr (files', p) \<and> files q \<noteq> None \<and> q \<noteq> src
       \<longrightarrow> p \<noteq> q \<and> files' q = files q"
  proof (intro allI impI)
    fix files' p q
    assume a: "safe_move files src dst = Inr (files', p) \<and> files q \<noteq> None \<and> q \<noteq> src"
    then have "files p = None" "\<exists>c. files src = Some c \<and> files' = (files(src := None))(p := Some c)"
      using safe_move_Inr[of files src dst files' p] by auto
    then show "p \<noteq> q \<and> files' q = files q" using a by auto
  qed
  let ?d = "[cps ''out'', cps ''a.stl'']"
  have 5: "files ?d \<noteq> None \<and> files [cps ''out'', cps ''a_01.stl''] = None
       \<longrightarrow> safe_move files src ?d
           = Inr ((files(src := None))([cps ''out'', cps ''a_01.stl''] := Some c),
                  [cps ''out'', cps ''a_01.stl''])"
    using first[of ?d 1] candidate_a_stl by auto
  have 6: "files ?d \<noteq> None \<and> files [cps ''out'', cps ''a_01.stl''] \<noteq> None
        \<and> files [cps ''out'', cps ''a_02.stl''] = None
       \<longrightarrow> safe_move files src ?d
           = Inr ((files(src := None))([cps ''out'', cps ''a_02.stl''] := Some c),
                  [cps ''out'', cps ''a_02.stl''])"
  proof
    assume a: "files ?d \<noteq> None \<and> files [cps ''out'', cps ''a_01.stl''] \<noteq> None
        \<and> files [cps ''out'', cps ''a_02.stl''] = None"
    have "\<forall>j. 1 \<le> j \<and> j < 2 \<longrightarrow> files (candidate ?d j) \<noteq> None"
    proof (intro allI impI)
      fix j :: nat assume "1 \<le> j \<and> j < 2"
      then have "j = 1" by simp
      then show "files (candidate ?d j) \<noteq> None" using a candidate_a_stl(1) by simp
    qed
    then show "safe_move files src ?d
           = Inr ((files(src := None))([cps ''out'', cps ''a_02.stl''] := Some c),
                  [cps ''out'', cps ''a_02.stl''])"
      using first[of ?d 2] a candidate_a_stl by auto
  qed
  show ?thesis using 1 2 3 4 5 6 by blast
qed

text \<open>
  Claim C4 on a file system in which \<open>out/a.stl\<close> and \<open>out/a_01.stl\<close> are taken: the
  download \<open>tmp/a.stl\<close> ends up as \<open>out/a_02.stl\<close>, and both files are kept.
\<close>

theorem safe_move_first_free_witness:
  "taken_files file_a = Some 3
   \<and> taken_files [cps ''out'', cps ''a.stl''] = Some 1
   \<and> taken_files [cps ''out'', cps ''a_01.stl''] = Some 2
   \<and> taken_files [cps ''out'', cps ''a_02.stl''] = None
   \<and> safe_move taken_files file_a [cps ''out'', cps ''a.stl'']
       = Inr ((taken_files(file_a := None))([cps ''out'', cps ''a_02.stl''] := Some 3),
              [cps ''out'', cps ''a_02.stl''])"
proof -
  have t: "taken_files file_a = Some 3" "taken_files [cps ''out'', cps ''a.stl''] = Some 1"
    "taken_files [cps ''out'', cps ''a_01.stl''] = Some 2"
    "taken_files [cps ''out'', cps ''a_02.stl''] = None"
    by (simp_all add: taken_files_def file_a_def cps_def)
  show ?thesis
    using safe_move_first_free[of taken_files file_a 3 "[cps ''out'', cps ''a.stl'']" 2] t
    by simp
qed

section \<open>Properties of the download watcher\<close>

lemmas watch_ev = wait_for_new_download_def new_files_def list_files_def glob_star_def
  is_partial_def

lemma max_by_mem: "max_by key b xs \<in> set (b # xs)"
  by (induction xs arbitrary: b) auto

lemma new_files_mem:
  "p \<in> set (new_files db d B snap)
     \<Longrightarrow> p \<in> set (entries snap) \<and> p \<noteq> [] \<and> butlast p = d \<and> is_file snap p \<and> p \<notin> B
         \<and> \<not> is_partial db p"
  by (auto simp: new_files_def list_files_def glob_star_def)

text \<open>
  A path that is returned was, in one of the polls before the deadline, a regular file
  in the directory that is new since the snapshot and not partial.
\<close>

lemma poll_loop_Inr:
  "poll_loop db d B dl ls ss polls = Some (Inr p)
     \<Longrightarrow> \<exists>ob\<in>set polls. t_loop ob < dl \<and> p \<in> set (new_files db d B (view ob))"
proof (induction polls arbitrary: ls ss)
  case Nil
  then show ?case by simp
next
  case (Cons ob obs)
  let ?new = "new_files db d B (view ob)"
  let ?cand = "max_by (st_mtime (view ob)) (hd ?new) (tl ?new)"
  show ?case
  proof (cases "poll_loop db d B dl ls ss (ob # obs) = Some (Inr ?cand)
      \<and> t_loop ob < dl \<and> ?new \<noteq> []")
    case True
    then have "?cand \<in> set ?new" using max_by_mem[of "st_mtime (view ob)" "hd ?new" "tl ?new"] by simp
    then show ?thesis using True Cons.prems by auto
  next
    case False
    then have "\<exists>ls' ss'. poll_loop db d B dl ls' ss' obs = Some (Inr p)"
      using Cons.prems by (auto simp: Let_def split: if_splits option.splits)
    then show ?thesis using Cons.IH by auto
  qed
qed

text \<open>The only exception the loop raises is the timeout.\<close>

lemma poll_loop_Inl:
  "poll_loop db d B dl ls ss polls = Some (Inl e) \<Longrightarrow> e = TimeoutError"
proof (induction polls arbitrary: ls ss)
  case Nil
  then show ?case by simp
next
  case (Cons ob obs)
  then show ?case by (auto simp: Let_def split: if_splits option.splits)
qed

text \<open>
  A poll whose clock reading in the loop condition is not before the deadline ends the
  loop with the timeout: the directory is not looked at again, whatever follows.
\<close>

lemma poll_loop_deadline:
  "\<not> t_loop ob < dl \<Longrightarrow> poll_loop db d B dl ls ss (ob # rest) = Some (Inl TimeoutError)"
  by simp

text \<open>Observations that reach the deadline are enough for the loop to decide.\<close>

lemma poll_loop_decides:
  "\<exists>ob\<in>set polls. \<not> t_loop ob < dl \<Longrightarrow> poll_loop db d B dl ls ss polls \<noteq> None"
proof (induction polls arbitrary: ls ss)
  case Nil
  then show ?case by simp
next
  case (Cons ob obs)
  show ?case
  proof (cases "t_loop ob < dl")
    case False
    then show ?thesis by simp
  next
    case True
    then have "\<exists>ob\<in>set obs. \<not> t_loop ob < dl" using Cons.prems by auto
    then have "poll_loop db d B dl ls' ss' obs \<noteq> None" for ls' ss' using Cons.IH by blast
    then show ?thesis by (auto simp: Let_def split: option.splits)
  qed
qed

lemma wait_for_new_download_Inr:
  "wait_for_new_download db t0 polls d B timeout_s = Some (Inr p)
     \<Longrightarrow> p \<noteq> [] \<and> butlast p = d \<and> p \<notin> B \<and> \<not> is_partial db p
         \<and> (\<exists>ob\<in>set polls. p \<in> set (entries (view ob)) \<and> is_file (view ob) p)"
  unfolding wait_for_new_download_def using poll_loop_Inr new_files_mem by blast

lemma wait_for_new_download_decides:
  "\<exists>ob\<in>set polls. \<not> t_loop ob < t0 + real_of_int timeout_s
     \<Longrightarrow> wait_for_new_download db t0 polls d B timeout_s \<noteq> None"
  unfolding wait_for_new_download_def by (rule poll_loop_decides)

lemma poll_loop_step:
  "poll_loop db d B dl ls ss (ob # obs) =
     (if \<not> t_loop ob < dl then Some (Inl TimeoutError)
      else case candidate_of db d B (view ob) of
        None \<Rightarrow> poll_loop db d B dl ls ss obs
      | Some c \<Rightarrow>
          if ls \<noteq> Some (st_size (view ob) c)
          then poll_loop db d B dl (Some (st_size (view ob) c)) (Some (t_now ob)) obs
          else (case ss of
                  Some since \<Rightarrow> if 1 \<le> t_now ob - since then Some (Inr c)
                     else poll_loop db d B dl ls ss obs
                | None \<Rightarrow> poll_loop db d B dl ls ss obs))"
  by (simp add: candidate_of_def Let_def)

text \<open>
  What the loop does guarantee about sizes. When it returns, the sizes it has read in
  its polls, each for the candidate of that poll, have been the same for at least one
  second: there is an earlier poll that read the same size at least a second before,
  and every poll in between that had a candidate read that size too. The candidates of
  these polls need not be the same file.
\<close>

lemma poll_loop_stable:
  "poll_loop db d B dl ls ss polls = Some (Inr p)
   \<Longrightarrow> (\<exists>pre ob rest s since. polls = pre @ ob # rest
          \<and> candidate_of db d B (view ob) = Some p \<and> st_size (view ob) p = s
          \<and> ls = Some s \<and> ss = Some since \<and> 1 \<le> t_now ob - since
          \<and> (\<forall>m\<in>set pre. observed_size db d B (view m) = None
                \<or> observed_size db d B (view m) = Some s))
     \<or> (\<exists>pre ob0 mid ob rest s. polls = pre @ ob0 # mid @ ob # rest
          \<and> candidate_of db d B (view ob) = Some p \<and> st_size (view ob) p = s
          \<and> observed_size db d B (view ob0) = Some s \<and> 1 \<le> t_now ob - t_now ob0
          \<and> (\<forall>m\<in>set mid. observed_size db d B (view m) = None
                \<or> observed_size db d B (view m) = Some s))"
    (is "_ \<Longrightarrow> ?A ls ss polls \<or> ?B polls")
proof (induction polls arbitrary: ls ss)
  case Nil
  then show ?case by simp
next
  case (Cons x xs)
  have early: "t_loop x < dl" using Cons.prems by (auto split: if_splits)
  have shiftB: "?B (x # xs)" if "?B xs"
  proof -
    from that obtain pre ob0 mid ob rest s where h: "xs = pre @ ob0 # mid @ ob # rest"
      "candidate_of db d B (view ob) = Some p" "st_size (view ob) p = s"
      "observed_size db d B (view ob0) = Some s" "1 \<le> t_now ob - t_now ob0"
      "\<forall>m\<in>set mid. observed_size db d B (view m) = None
          \<or> observed_size db d B (view m) = Some s"
      by blast
    have "x # xs = (x # pre) @ ob0 # mid @ ob # rest" using h(1) by simp
    then show ?thesis using h(2-6) by blast
  qed
  show ?case
  proof (cases "candidate_of db d B (view x)")
    case None
    then have run: "poll_loop db d B dl ls ss xs = Some (Inr p)"
      using Cons.prems early by (simp add: poll_loop_step del: poll_loop.simps)
    have ox: "observed_size db d B (view x) = None" using None by (simp add: observed_size_def)
    from Cons.IH[OF run] show ?thesis
    proof
      assume "?A ls ss xs"
      then obtain pre ob rest s since where h: "xs = pre @ ob # rest"
        "candidate_of db d B (view ob) = Some p" "st_size (view ob) p = s"
        "ls = Some s" "ss = Some since" "1 \<le> t_now ob - since"
        "\<forall>m\<in>set pre. observed_size db d B (view m) = None
            \<or> observed_size db d B (view m) = Some s"
        by blast
      have "x # xs = (x # pre) @ ob # rest" using h(1) by simp
      moreover have "\<forall>m\<in>set (x # pre). observed_size db d B (view m) = None
            \<or> observed_size db d B (view m) = Some s" using h(7) ox by simp
      ultimately have "?A ls ss (x # xs)" using h(2-6) by blast
      then show ?thesis by blast
    next
      assume "?B xs"
      then show ?thesis using shiftB by blast
    qed
  next
    case (Some c)
    let ?sz = "st_size (view x) c"
    have ox: "observed_size db d B (view x) = Some ?sz" using Some by (simp add: observed_size_def)
    show ?thesis
    proof (cases "ls = Some ?sz")
      case False
      then have run: "poll_loop db d B dl (Some ?sz) (Some (t_now x)) xs = Some (Inr p)"
        using Cons.prems early Some by (simp add: poll_loop_step del: poll_loop.simps)
      from Cons.IH[OF run] show ?thesis
      proof
        assume "?A (Some ?sz) (Some (t_now x)) xs"
        then obtain pre ob rest where h: "xs = pre @ ob # rest"
          "candidate_of db d B (view ob) = Some p" "st_size (view ob) p = ?sz"
          "1 \<le> t_now ob - t_now x"
          "\<forall>m\<in>set pre. observed_size db d B (view m) = None
              \<or> observed_size db d B (view m) = Some ?sz"
          by auto
        have "x # xs = [] @ x # pre @ ob # rest" using h(1) by simp
        then have "?B (x # xs)" using h(2-5) ox by blast
        then show ?thesis by blast
      next
        assume "?B xs"
        then show ?thesis using shiftB by blast
      qed
    next
      case same: True
      show ?thesis
      proof (cases "\<exists>since. ss = Some since \<and> 1 \<le> t_now x - since")
        case True
        then obtain since where since: "ss = Some since" "1 \<le> t_now x - since" by blast
        then have "p = c"
          using Cons.prems early Some same by (simp add: poll_loop_step del: poll_loop.simps)
        moreover have "x # xs = [] @ x # xs" by simp
        ultimately have "?A ls ss (x # xs)" using Some same since by fastforce
        then show ?thesis by blast
      next
        case False
        then have run: "poll_loop db d B dl ls ss xs = Some (Inr p)"
          using Cons.prems early Some same
          by (auto simp: poll_loop_step simp del: poll_loop.simps split: option.splits if_splits)
        from Cons.IH[OF run] show ?thesis
        proof
          assume "?A ls ss xs"
          then obtain pre ob rest s since where h: "xs = pre @ ob # rest"
            "candidate_of db d B (view ob) = Some p" "st_size (view ob) p = s"
            "ls = Some s" "ss = Some since" "1 \<le> t_now ob - since"
            "\<forall>m\<in>set pre. observed_size db d B (view m) = None
                \<or> observed_size db d B (view m) = Some s"
            by blast
          have "x # xs = (x # pre) @ ob # rest" using h(1) by simp
          moreover have "\<forall>m\<in>set (x # pre). observed_size db d B (view m) = None
                \<or> observed_size db d B (view m) = Some s" using h(4,7) ox same by simp
          ultimately have "?A ls ss (x # xs)" using h(2-6) by blast
          then show ?thesis by blast
        next
          assume "?B xs"
          then show ?thesis using shiftB by blast
        qed
      qed
    qed
  qed
qed

lemma wait_for_new_download_stable:
  assumes "wait_for_new_download db t0 polls d B timeout_s = Some (Inr p)"
  shows "\<exists>pre ob0 mid ob rest s. polls = pre @ ob0 # mid @ ob # rest
          \<and> candidate_of db d B (view ob) = Some p \<and> st_size (view ob) p = s
          \<and> observed_size db d B (view ob0) = Some s \<and> 1 \<le> t_now ob - t_now ob0
          \<and> (\<forall>m\<in>set mid. observed_size db d B (view m) = None
                \<or> observed_size db d B (view m) = Some s)"
  using poll_loop_stable[OF assms[unfolded wait_for_new_download_def]] by simp

text \<open>When nothing new and complete is ever listed, the call ends in the timeout.\<close>

lemma poll_loop_nothing_new:
  "\<forall>ob\<in>set polls. new_files db d B (view ob) = [] \<Longrightarrow> \<exists>ob\<in>set polls. \<not> t_loop ob < dl
     \<Longrightarrow> poll_loop db d B dl ls ss polls = Some (Inl TimeoutError)"
proof (induction polls)
  case Nil
  then show ?case by simp
next
  case (Cons ob obs)
  show ?case
  proof (cases "t_loop ob < dl")
    case False
    then show ?thesis by simp
  next
    case True
    then have "\<exists>ob\<in>set obs. \<not> t_loop ob < dl" using Cons.prems(2) by auto
    then show ?thesis using Cons True by simp
  qed
qed

lemma is_partial_examples:
  "is_partial db [cps ''tmp'', cps ''a.stl.part'']" "is_partial db [cps ''tmp'', cps ''a.crdownload'']"
  "is_partial db [cps ''tmp'', cps ''A.TMP'']" "is_partial db [cps ''tmp'', cps ''.part'']"
  "\<not> is_partial db [cps ''tmp'', cps ''a.stl'']"
  by (simp_all add: is_partial_def path_ev cps_def)

text \<open>
  Claim C1 fails on the code. In \<open>swap_polls\<close> the file \<open>a.stl\<close> is seen with 100 bytes
  from 0 to 0.8 seconds; at 1 second \<open>b.stl\<close> is seen for the first time, newer and
  also of 100 bytes. The loop compares the size with that of the previous candidate
  without comparing the candidates, so it returns \<open>b.stl\<close> in the first poll that sees
  it, long before the deadline of 180 seconds.
\<close>

theorem wait_returns_file_seen_once:
  "wait_for_new_download db 0 swap_polls d_tmp {} 180 = Some (Inr file_b)
   \<and> list_all (\<lambda>ob. file_b \<notin> set (entries (view ob))) (butlast swap_polls)
   \<and> t_now (last swap_polls) = 1 \<and> file_a \<noteq> file_b"
  by (simp add: watch_ev scen_ev path_ev cps_def)

text \<open>
  Claim C3 fails on the code at \<open>grown_polls\<close>, by the same defect. There \<open>a.stl\<close> has
  grown from 100 to 150 bytes in the last poll, and \<open>b.stl\<close> is seen in the last poll
  only: no file has kept its size for a second, and yet the call returns \<open>b.stl\<close>
  instead of polling on until the timeout.
\<close>

theorem wait_returns_without_stable_file:
  "wait_for_new_download db 0 grown_polls d_tmp {} 180 = Some (Inr file_b)
   \<and> list_all (\<lambda>ob. file_b \<notin> set (entries (view ob))) (butlast grown_polls)
   \<and> st_size (view (hd grown_polls)) file_a = 100
   \<and> st_size (view (last grown_polls)) file_a = 150
   \<and> list_all (\<lambda>ob. t_loop ob < 180) grown_polls"
  by (simp add: watch_ev scen_ev path_ev cps_def)

text \<open>When one file is seen alone and unchanged, it is returned after the full second.\<close>

lemma wait_steady:
  "wait_for_new_download db 0 steady_polls d_tmp {} 180 = Some (Inr file_a)
   \<and> wait_for_new_download db 0 (butlast steady_polls) d_tmp {} 180 = None"
  by (simp add: watch_ev scen_ev path_ev cps_def)

section \<open>Properties of the batch run\<close>

lemmas log_defs = pairs_def artifacts_def failures_def font_errors_def

lemma map_filter_append:
  "List.map_filter f (xs @ ys) = List.map_filter f xs @ List.map_filter f ys"
  by (simp add: List.map_filter_def)

lemma log_append:
  "pairs (xs @ ys) = pairs xs @ pairs ys"
  "artifacts (xs @ ys) = artifacts xs @ artifacts ys"
  "failures (xs @ ys) = failures xs @ failures ys"
  "font_errors (xs @ ys) = font_errors xs @ font_errors ys"
  by (simp_all add: log_defs map_filter_append)

lemma log_Nil: "pairs [] = []" "artifacts [] = []" "failures [] = []" "font_errors [] = []"
  by (simp_all add: log_defs)

lemma log_Ok:
  "pairs [EvOk f p n] = [(f, p)]" "artifacts [EvOk f p n] = [n]" "failures [EvOk f p n] = []"
  "font_errors [EvOk f p n] = []"
  by (simp_all add: log_defs)

lemma log_PhraseError:
  "pairs [EvPhraseError f p e] = [(f, p)]" "artifacts [EvPhraseError f p e] = []"
  "failures [EvPhraseError f p e] = [(f, p)]" "font_errors [EvPhraseError f p e] = []"
  by (simp_all add: log_defs)

lemma log_FontError:
  "pairs [EvFontError q e] = []" "artifacts [EvFontError q e] = []"
  "failures [EvFontError q e] = []" "font_errors [EvFontError q e] = [q]"
  by (simp_all add: log_defs)

lemma log_Skip:
  "pairs [EvSkipNonTTF q] = []" "artifacts [EvSkipNonTTF q] = []"
  "failures [EvSkipNonTTF q] = []" "font_errors [EvSkipNonTTF q] = []"
  by (simp_all add: log_defs)

lemma log_Driver:
  "pairs [EvDriverStarted] = []" "artifacts [EvDriverStarted] = []"
  "failures [EvDriverStarted] = []" "font_errors [EvDriverStarted] = []"
  "pairs [EvDriverQuit] = []" "artifacts [EvDriverQuit] = []"
  "failures [EvDriverQuit] = []" "font_errors [EvDriverQuit] = []"
  by (simp_all add: log_defs)

lemma load_phrases_events:
  assumes "load_phrases p f = Inr (phrases, evs)"
  shows "pairs evs = [] \<and> artifacts evs = [] \<and> failures evs = [] \<and> font_errors evs = []"
  using assms
  by (auto simp: load_phrases_def Let_def log_defs split: phrase_file.splits if_splits)

lemma name_of_snoc: "name_of (xs @ [n]) = n"
  by (simp add: name_of_def)

lemma written_keeps: "files p \<noteq> None \<Longrightarrow> written tmp dls files p \<noteq> None"
  unfolding written_def by (induction dls arbitrary: files) (auto split: prod.splits)

subsection \<open>One phrase\<close>

lemma process_phrase_cases:
  assumes "process_phrase db ar en f j ph st = Some st'"
  shows "(\<exists>e. st' = \<lparr>s_files = written (a_tmp ar) (at_downloads (e_attempt en f j)) (s_files st),
              s_log = s_log st @ [EvPhraseError (name_of f) ph e]\<rparr>)
     \<or> (\<exists>dl files' fin.
          wait_for_new_download db (at_start (e_attempt en f j)) (at_polls (e_attempt en f j))
            (a_tmp ar) (set (list_files (a_tmp ar) (at_before (e_attempt en f j))))
            (a_download_timeout ar) = Some (Inr dl)
          \<and> safe_move (written (a_tmp ar) (at_downloads (e_attempt en f j)) (s_files st)) dl
               (a_output ar @ [out_name db f ph]) = Inr (files', fin)
          \<and> st' = \<lparr>s_files = files', s_log = s_log st @ [EvOk (name_of f) ph (name_of fin)]\<rparr>)"
  using assms unfolding process_phrase_def Let_def
  by (auto split: option.splits sum.splits prod.splits)

lemma process_phrase_Some:
  "decides db ar (e_attempt en f j) \<Longrightarrow> \<exists>st'. process_phrase db ar en f j ph st = Some st'"
  unfolding process_phrase_def decides_def Let_def
  by (auto split: option.splits sum.splits prod.splits)

lemma process_phrase_log:
  assumes "process_phrase db ar en f j ph st = Some st'"
  shows "\<exists>ev. s_log st' = s_log st @ [ev] \<and> pairs [ev] = [(name_of f, ph)]
     \<and> font_errors [ev] = [] \<and> length (artifacts [ev]) + length (failures [ev]) = 1"
  using process_phrase_cases[OF assms] by (auto simp: log_Ok log_PhraseError)

lemma candidate_snoc:
  "candidate (out @ [n]) i = out @ [stem_of n @ [95] @ fmt02 i @ suffix_of n]"
  by (simp add: candidate_def name_of_def)

lemma safe_move_target:
  assumes "safe_move files src (out @ [n]) = Inr (files', fin)"
  shows "fin = out @ [name_of fin]"
proof -
  have "fin = out @ [n] \<or> (\<exists>i. fin = candidate (out @ [n]) i)"
    using safe_move_Inr[OF assms] by blast
  then show ?thesis
  proof
    assume "fin = out @ [n]"
    then show ?thesis by (simp add: name_of_snoc)
  next
    assume "\<exists>i. fin = candidate (out @ [n]) i"
    then obtain i where "fin = out @ [stem_of n @ [95] @ fmt02 i @ suffix_of n]"
      unfolding candidate_snoc by blast
    then show ?thesis by (simp add: name_of_snoc)
  qed
qed

lemma process_phrase_kept:
  assumes ne: "a_tmp ar \<noteq> a_output ar" and kept: "artifacts_kept ar st"
    and run: "process_phrase db ar en f j ph st = Some st'"
  shows "artifacts_kept ar st'"
proof -
  define files where "files = written (a_tmp ar) (at_downloads (e_attempt en f j)) (s_files st)"
  define arts where "arts = artifacts (s_log st)"
  have old: "files (a_output ar @ [n]) \<noteq> None" if "n \<in> set arts" for n
  proof -
    have "s_files st (a_output ar @ [n]) \<noteq> None"
      using kept that unfolding artifacts_kept_def list_all_iff arts_def by simp
    then show ?thesis unfolding files_def by (rule written_keeps)
  qed
  have dist: "distinct arts" using kept by (simp add: artifacts_kept_def arts_def)
  consider (fail) e where "st' = \<lparr>s_files = files,
        s_log = s_log st @ [EvPhraseError (name_of f) ph e]\<rparr>"
    | (ok) dl files' fin where
        "wait_for_new_download db (at_start (e_attempt en f j))
           (at_polls (e_attempt en f j)) (a_tmp ar)
           (set (list_files (a_tmp ar) (at_before (e_attempt en f j))))
           (a_download_timeout ar) = Some (Inr dl)"
        "safe_move files dl (a_output ar @ [out_name db f ph]) = Inr (files', fin)"
        "st' = \<lparr>s_files = files', s_log = s_log st @ [EvOk (name_of f) ph (name_of fin)]\<rparr>"
    using process_phrase_cases[OF run] unfolding files_def by blast
  then show ?thesis
  proof cases
    case fail
    have "artifacts (s_log st') = arts"
      unfolding fail arts_def by (simp add: log_append log_PhraseError)
    moreover have "s_files st' = files" unfolding fail by simp
    ultimately show ?thesis using old dist by (simp add: artifacts_kept_def list_all_iff)
  next
    case ok
    have dl: "butlast dl = a_tmp ar" using wait_for_new_download_Inr[OF ok(1)] by simp
    have fin: "fin = a_output ar @ [name_of fin]" using safe_move_target[OF ok(2)] .
    obtain c where free: "files fin = None"
      and files': "files' = (files(dl := None))(fin := Some c)"
      using safe_move_Inr[OF ok(2)] by blast
    have not_dl: "a_output ar @ [n] \<noteq> dl" for n
    proof
      assume "a_output ar @ [n] = dl"
      then have "butlast dl = a_output ar" by auto
      then show False using dl ne by simp
    qed
    have fresh: "name_of fin \<notin> set arts"
    proof
      assume "name_of fin \<in> set arts"
      then have "files (a_output ar @ [name_of fin]) \<noteq> None" by (rule old)
      then show False using free fin by simp
    qed
    have keep: "files' (a_output ar @ [n]) \<noteq> None" if "n \<in> set arts" for n
    proof -
      have "files (a_output ar @ [n]) \<noteq> None" using that by (rule old)
      then show ?thesis using not_dl[of n] unfolding files' by (simp add: fun_upd_def)
    qed
    have "files' fin \<noteq> None" unfolding files' by simp
    then have new: "files' (a_output ar @ [name_of fin]) \<noteq> None" using fin by simp
    have arts': "artifacts (s_log st') = arts @ [name_of fin]"
      unfolding ok(3) arts_def by (simp add: log_append log_Ok)
    have files_st': "s_files st' = files'" unfolding ok(3) by simp
    show ?thesis unfolding artifacts_kept_def arts' files_st' list_all_iff
      using dist fresh keep new by auto
  qed
qed

subsection \<open>The phrases of one font\<close>

lemma phrase_loop_Some:
  "\<forall>j. decides db ar (e_attempt en f j) \<Longrightarrow> \<exists>st'. phrase_loop db ar en f j ps st = Some st'"
proof (induction ps arbitrary: j st)
  case Nil
  then show ?case by simp
next
  case (Cons ph ps)
  obtain st1 where "process_phrase db ar en f j ph st = Some st1"
    using process_phrase_Some Cons.prems by blast
  then show ?case using Cons by simp
qed

lemma phrase_loop_log:
  "phrase_loop db ar en f j ps st = Some st'
     \<Longrightarrow> \<exists>evs. s_log st' = s_log st @ evs \<and> pairs evs = map (\<lambda>p. (name_of f, p)) ps
           \<and> font_errors evs = []
           \<and> length (artifacts evs) + length (failures evs) = length ps"
proof (induction ps arbitrary: j st)
  case Nil
  then show ?case by (simp add: log_Nil)
next
  case (Cons ph ps)
  then obtain st1 where 1: "process_phrase db ar en f j ph st = Some st1"
    and 2: "phrase_loop db ar en f (Suc j) ps st1 = Some st'"
    by (auto split: option.splits)
  obtain ev where ev: "s_log st1 = s_log st @ [ev]" "pairs [ev] = [(name_of f, ph)]"
    "font_errors [ev] = []" "length (artifacts [ev]) + length (failures [ev]) = 1"
    using process_phrase_log[OF 1] by blast
  obtain evs where evs: "s_log st' = s_log st1 @ evs" "pairs evs = map (\<lambda>p. (name_of f, p)) ps"
    "font_errors evs = []" "length (artifacts evs) + length (failures evs) = length ps"
    using Cons.IH[OF 2] by blast
  show ?case
    using ev evs by (intro exI[of _ "ev # evs"]) (simp add: log_append[of "[ev]" evs, simplified])
qed

lemma phrase_loop_kept:
  "a_tmp ar \<noteq> a_output ar \<Longrightarrow> artifacts_kept ar st
     \<Longrightarrow> phrase_loop db ar en f j ps st = Some st' \<Longrightarrow> artifacts_kept ar st'"
proof (induction ps arbitrary: j st)
  case Nil
  then show ?case by simp
next
  case (Cons ph ps)
  then obtain st1 where 1: "process_phrase db ar en f j ph st = Some st1"
    and 2: "phrase_loop db ar en f (Suc j) ps st1 = Some st'"
    by (auto split: option.splits)
  have "artifacts_kept ar st1" using process_phrase_kept[OF Cons.prems(1,2) 1] .
  then show ?case using Cons.IH[OF Cons.prems(1) _ 2] by simp
qed

subsection \<open>One font\<close>

lemma process_font_Some:
  "\<forall>j. decides db ar (e_attempt en f j) \<Longrightarrow> \<exists>st'. process_font db ar en phrases f st = Some st'"
  unfolding process_font_def using phrase_loop_Some[of db ar en f 0 phrases st]
  by (auto split: option.splits)

lemma process_font_log:
  assumes "process_font db ar en phrases f st = Some st'"
  shows "\<exists>evs. s_log st' = s_log st @ evs
     \<and> pairs evs = (if setup_ok en f then map (\<lambda>p. (name_of f, p)) phrases else [])
     \<and> font_errors evs = (if setup_ok en f then [] else [f])
     \<and> length (artifacts evs) + length (failures evs) = (if setup_ok en f then length phrases else 0)"
proof (cases "font_setup (e_font en f)")
  case None
  then have "phrase_loop db ar en f 0 phrases st = Some st'"
    using assms by (simp add: process_font_def)
  then show ?thesis using phrase_loop_log None by (simp add: setup_ok_def)
next
  case (Some e)
  then have "s_log st' = s_log st @ [EvFontError f e]"
    using assms by (auto simp: process_font_def)
  then show ?thesis using Some
    by (intro exI[of _ "[EvFontError f e]"]) (simp add: setup_ok_def log_FontError)
qed

lemma process_font_kept:
  assumes "a_tmp ar \<noteq> a_output ar" "artifacts_kept ar st"
    "process_font db ar en phrases f st = Some st'"
  shows "artifacts_kept ar st'"
proof (cases "font_setup (e_font en f)")
  case None
  then have "phrase_loop db ar en f 0 phrases st = Some st'"
    using assms(3) by (simp add: process_font_def)
  then show ?thesis using phrase_loop_kept assms(1,2) by blast
next
  case (Some e)
  then have "st' = st\<lparr>s_log := s_log st @ [EvFontError f e]\<rparr>"
    using assms(3) by (auto simp: process_font_def)
  then show ?thesis using assms(2)
    by (simp add: artifacts_kept_def log_append log_FontError)
qed

subsection \<open>All fonts\<close>

lemma font_loop_Some:
  "\<forall>f j. decides db ar (e_attempt en f j) \<Longrightarrow> \<exists>st'. font_loop db ar en phrases items st = Some st'"
proof (induction items arbitrary: st)
  case Nil
  then show ?case by simp
next
  case (Cons it items)
  show ?case
  proof (cases it)
    case (Warn p)
    then show ?thesis using Cons by simp
  next
    case (Yield p)
    obtain st1 where "process_font db ar en phrases p st = Some st1"
      using process_font_Some Cons.prems by blast
    then show ?thesis using Cons Yield by simp
  qed
qed

lemma font_loop_log:
  "font_loop db ar en phrases items st = Some st'
     \<Longrightarrow> \<exists>evs. s_log st' = s_log st @ evs
           \<and> pairs evs = all_pairs (filter (setup_ok en) (yielded items)) phrases
           \<and> font_errors evs = filter (\<lambda>f. \<not> setup_ok en f) (yielded items)
           \<and> length (artifacts evs) + length (failures evs)
               = length phrases * length (filter (setup_ok en) (yielded items))"
proof (induction items arbitrary: st)
  case Nil
  then show ?case by (simp add: log_Nil all_pairs_def)
next
  case (Cons it items)
  show ?case
  proof (cases it)
    case (Warn p)
    then have "font_loop db ar en phrases items (st\<lparr>s_log := s_log st @ [EvSkipNonTTF p]\<rparr>) = Some st'"
      using Cons.prems by simp
    then obtain evs where evs: "s_log st' = (s_log st @ [EvSkipNonTTF p]) @ evs"
      "pairs evs = all_pairs (filter (setup_ok en) (yielded items)) phrases"
      "font_errors evs = filter (\<lambda>f. \<not> setup_ok en f) (yielded items)"
      "length (artifacts evs) + length (failures evs)
          = length phrases * length (filter (setup_ok en) (yielded items))"
      using Cons.IH by fastforce
    show ?thesis using evs Warn
      by (intro exI[of _ "EvSkipNonTTF p # evs"])
        (simp add: log_append[of "[EvSkipNonTTF p]" evs, simplified] log_Skip)
  next
    case (Yield p)
    then obtain st1 where 1: "process_font db ar en phrases p st = Some st1"
      and 2: "font_loop db ar en phrases items st1 = Some st'"
      using Cons.prems by (auto split: option.splits)
    obtain evs1 where evs1: "s_log st1 = s_log st @ evs1"
      "pairs evs1 = (if setup_ok en p then map (\<lambda>ph. (name_of p, ph)) phrases else [])"
      "font_errors evs1 = (if setup_ok en p then [] else [p])"
      "length (artifacts evs1) + length (failures evs1) = (if setup_ok en p then length phrases else 0)"
      using process_font_log[OF 1] by blast
    obtain evs where evs: "s_log st' = s_log st1 @ evs"
      "pairs evs = all_pairs (filter (setup_ok en) (yielded items)) phrases"
      "font_errors evs = filter (\<lambda>f. \<not> setup_ok en f) (yielded items)"
      "length (artifacts evs) + length (failures evs)
          = length phrases * length (filter (setup_ok en) (yielded items))"
      using Cons.IH[OF 2] by blast
    show ?thesis
    proof (cases "setup_ok en p")
      case True
      then show ?thesis using evs evs1 Yield
        by (intro exI[of _ "evs1 @ evs"]) (simp add: log_append all_pairs_def)
    next
      case False
      then show ?thesis using evs evs1 Yield
        by (intro exI[of _ "evs1 @ evs"]) (simp add: log_append all_pairs_def)
    qed
  qed
qed

lemma font_loop_kept:
  "a_tmp ar \<noteq> a_output ar \<Longrightarrow> artifacts_kept ar st
     \<Longrightarrow> font_loop db ar en phrases items st = Some st' \<Longrightarrow> artifacts_kept ar st'"
proof (induction items arbitrary: st)
  case Nil
  then show ?case by simp
next
  case (Cons it items)
  show ?case
  proof (cases it)
    case (Warn p)
    have "artifacts_kept ar (st\<lparr>s_log := s_log st @ [EvSkipNonTTF p]\<rparr>)"
      using Cons.prems(2) by (simp add: artifacts_kept_def log_append log_Skip)
    then show ?thesis using Cons Warn by simp
  next
    case (Yield p)
    then obtain st1 where 1: "process_font db ar en phrases p st = Some st1"
      and 2: "font_loop db ar en phrases items st1 = Some st'"
      using Cons.prems by (auto split: option.splits)
    have "artifacts_kept ar st1" using process_font_kept[OF Cons.prems(1,2) 1] .
    then show ?thesis using Cons.IH[OF Cons.prems(1) _ 2] by simp
  qed
qed

subsection \<open>The whole run\<close>

text \<open>A run whose phrases load, whose browser starts and quits and whose watchers decide.\<close>

lemma main_finished:
  assumes load: "load_phrases (a_phrases ar) (e_phrase_file en) = Inr (phrases, evs0)"
    and ne: "phrases \<noteq> []" and drv: "e_make_driver en = None" and quit: "e_quit en = None"
    and dec: "\<forall>f j. decides db ar (e_attempt en f j)"
  shows "\<exists>st evs. font_loop db ar en phrases (iter_ttf_fonts db (e_fonts en) (a_fonts ar))
          \<lparr>s_files = files0, s_log = evs0 @ [EvDriverStarted]\<rparr> = Some st
     \<and> main db ar en files0 = Some \<lparr>r_exit = Finished, r_log = s_log st @ [EvDriverQuit],
          r_files = s_files st\<rparr>
     \<and> s_log st = evs0 @ [EvDriverStarted] @ evs
     \<and> pairs evs = all_pairs (filter (setup_ok en) (fonts_of db ar en)) phrases
     \<and> font_errors evs = filter (\<lambda>f. \<not> setup_ok en f) (fonts_of db ar en)
     \<and> length (artifacts evs) + length (failures evs)
         = length phrases * length (filter (setup_ok en) (fonts_of db ar en))"
proof -
  let ?st0 = "\<lparr>s_files = files0, s_log = evs0 @ [EvDriverStarted]\<rparr>"
  let ?items = "iter_ttf_fonts db (e_fonts en) (a_fonts ar)"
  obtain st where st: "font_loop db ar en phrases ?items ?st0 = Some st"
    using font_loop_Some[OF dec] by blast
  obtain evs where evs: "s_log st = s_log ?st0 @ evs"
    "pairs evs = all_pairs (filter (setup_ok en) (yielded ?items)) phrases"
    "font_errors evs = filter (\<lambda>f. \<not> setup_ok en f) (yielded ?items)"
    "length (artifacts evs) + length (failures evs)
        = length phrases * length (filter (setup_ok en) (yielded ?items))"
    using font_loop_log[OF st] by blast
  have "main db ar en files0 = Some \<lparr>r_exit = Finished, r_log = s_log st @ [EvDriverQuit],
          r_files = s_files st\<rparr>"
    using load ne drv quit st by (simp add: main_def)
  moreover have "s_log st = evs0 @ [EvDriverStarted] @ evs" using evs(1) by simp
  ultimately show ?thesis using st evs(2,3,4) unfolding fonts_of_def
    by (intro exI[of _ st] exI[of _ evs] conjI) assumption+
qed

lemmas run_ev = main_def load_phrases_def splitlines_def is_linebreak_def startswith_def
  iter_ttf_fonts_def rglob_star_def is_ttf_def process_font_def font_setup_def
  process_phrase_def written_def out_name_def safe_move_def move_def Let_def

lemma demo_load:
  "load_phrases (a_phrases demo_args) (e_phrase_file demo_env)
     = Inr ([cps ''one'', cps ''two words'', cps ''3!''], [])"
  by (simp add: run_ev scen_ev str_ev)

lemma demo_items:
  "iter_ttf_fonts latin1 (e_fonts demo_env) (a_fonts demo_args)
     = [Yield font_1, Warn [cps ''fonts'', cps ''notes.txt''], Yield font_2]"
  by (simp add: run_ev scen_ev path_ev cps_def)

lemma demo_decides: "decides latin1 demo_args (e_attempt demo_env f j)"
  by (simp add: decides_def watch_ev scen_ev path_ev cps_def)

lemma demo_log:
  "map_option r_log (main latin1 demo_args demo_env Map.empty)
     = Some [EvDriverStarted,
         EvOk (cps ''Alpha.ttf'') (cps ''one'') (cps ''Alpha__one.stl''),
         EvPhraseError (cps ''Alpha.ttf'') (cps ''two words'') (External 7),
         EvOk (cps ''Alpha.ttf'') (cps ''3!'') (cps ''Alpha__3.stl''),
         EvSkipNonTTF [cps ''fonts'', cps ''notes.txt''],
         EvOk (cps ''Beta.TTF'') (cps ''one'') (cps ''Beta__one.stl''),
         EvOk (cps ''Beta.TTF'') (cps ''two words'') (cps ''Beta__two_words.stl''),
         EvOk (cps ''Beta.TTF'') (cps ''3!'') (cps ''Beta__3.stl''),
         EvDriverQuit]"
  by (simp add: run_ev watch_ev scen_ev path_ev str_ev)


lemmas scen2_ev = setup_fail_env_def font_f_def collision_fonts_def collision_phrases_def
  collision_env_def

lemma setup_ok_iff: "setup_ok en f = no_setup_error (e_font en f)"
  by (auto simp: setup_ok_def font_setup_def no_setup_error_def split: option.splits)

lemma written_other: "butlast q \<noteq> tmp \<Longrightarrow> written tmp dls files q = files q"
  unfolding written_def
proof (induction dls arbitrary: files)
  case Nil
  then show ?case by simp
next
  case (Cons x dls)
  obtain n c where x: "x = (n, c)" by (cases x)
  have "q \<noteq> tmp @ [n]" using Cons.prems by auto
  then show ?case using Cons x by simp
qed

text \<open>The four ways in which the attempt for a phrase fails.\<close>

lemma process_phrase_render_fails:
  "at_set_phrase (e_attempt en f j) = Some e
     \<Longrightarrow> process_phrase db ar en f j ph st
         = Some \<lparr>s_files = written (a_tmp ar) (at_downloads (e_attempt en f j)) (s_files st),
                 s_log = s_log st @ [EvPhraseError (name_of f) ph e]\<rparr>"
  by (simp add: process_phrase_def Let_def)

lemma process_phrase_click_fails:
  "at_set_phrase (e_attempt en f j) = None \<Longrightarrow> at_click (e_attempt en f j) = Some e
     \<Longrightarrow> process_phrase db ar en f j ph st
         = Some \<lparr>s_files = written (a_tmp ar) (at_downloads (e_attempt en f j)) (s_files st),
                 s_log = s_log st @ [EvPhraseError (name_of f) ph e]\<rparr>"
  by (simp add: process_phrase_def Let_def)

lemma process_phrase_watcher_fails:
  "at_set_phrase (e_attempt en f j) = None \<Longrightarrow> at_click (e_attempt en f j) = None
     \<Longrightarrow> awaited db ar (e_attempt en f j) = Some (Inl e)
     \<Longrightarrow> process_phrase db ar en f j ph st
         = Some \<lparr>s_files = written (a_tmp ar) (at_downloads (e_attempt en f j)) (s_files st),
                 s_log = s_log st @ [EvPhraseError (name_of f) ph e]\<rparr>"
  by (simp add: process_phrase_def awaited_def Let_def)

lemma process_phrase_move_fails:
  "at_set_phrase (e_attempt en f j) = None \<Longrightarrow> at_click (e_attempt en f j) = None
     \<Longrightarrow> awaited db ar (e_attempt en f j) = Some (Inr dl)
     \<Longrightarrow> safe_move (written (a_tmp ar) (at_downloads (e_attempt en f j)) (s_files st)) dl
           (a_output ar @ [out_name db f ph]) = Inl e
     \<Longrightarrow> process_phrase db ar en f j ph st
         = Some \<lparr>s_files = written (a_tmp ar) (at_downloads (e_attempt en f j)) (s_files st),
                 s_log = s_log st @ [EvPhraseError (name_of f) ph e]\<rparr>"
  by (simp add: process_phrase_def awaited_def Let_def)

text \<open>An attempt changes no file that is in the output directory already.\<close>

lemma process_phrase_keeps_out:
  assumes ne: "a_tmp ar \<noteq> a_output ar"
    and run: "process_phrase db ar en f j ph st = Some st'"
    and q: "butlast q = a_output ar" "s_files st q \<noteq> None"
  shows "s_files st' q = s_files st q"
proof -
  define files where "files = written (a_tmp ar) (at_downloads (e_attempt en f j)) (s_files st)"
  have fq: "files q = s_files st q"
    unfolding files_def using q(1) ne by (intro written_other) simp
  consider (fail) e where "st' = \<lparr>s_files = files,
        s_log = s_log st @ [EvPhraseError (name_of f) ph e]\<rparr>"
    | (ok) dl files' fin where
        "wait_for_new_download db (at_start (e_attempt en f j))
           (at_polls (e_attempt en f j)) (a_tmp ar)
           (set (list_files (a_tmp ar) (at_before (e_attempt en f j))))
           (a_download_timeout ar) = Some (Inr dl)"
        "safe_move files dl (a_output ar @ [out_name db f ph]) = Inr (files', fin)"
        "st' = \<lparr>s_files = files', s_log = s_log st @ [EvOk (name_of f) ph (name_of fin)]\<rparr>"
    using process_phrase_cases[OF run] unfolding files_def by blast
  then show ?thesis
  proof cases
    case fail
    then show ?thesis using fq by simp
  next
    case ok
    have dl: "butlast dl = a_tmp ar" using wait_for_new_download_Inr[OF ok(1)] by simp
    obtain c where free: "files fin = None"
      and files': "files' = (files(dl := None))(fin := Some c)"
      using safe_move_Inr[OF ok(2)] by blast
    have "q \<noteq> dl" using dl q(1) ne by auto
    moreover have "q \<noteq> fin" using free fq q(2) by auto
    ultimately have "files' q = files q" unfolding files' by simp
    then show ?thesis using fq unfolding ok(3) by simp
  qed
qed

lemma phrase_loop_keeps_out:
  "a_tmp ar \<noteq> a_output ar \<Longrightarrow> phrase_loop db ar en f j ps st = Some st'
     \<Longrightarrow> butlast q = a_output ar \<Longrightarrow> s_files st q \<noteq> None \<Longrightarrow> s_files st' q = s_files st q"
proof (induction ps arbitrary: j st)
  case Nil
  then show ?case by simp
next
  case (Cons ph ps)
  then obtain st1 where 1: "process_phrase db ar en f j ph st = Some st1"
    and 2: "phrase_loop db ar en f (Suc j) ps st1 = Some st'"
    by (auto split: option.splits)
  have a: "s_files st1 q = s_files st q"
    using process_phrase_keeps_out[OF Cons.prems(1) 1 Cons.prems(3,4)] .
  then have "s_files st1 q \<noteq> None" using Cons.prems(4) by simp
  then have "s_files st' q = s_files st1 q" using Cons.IH[OF Cons.prems(1) 2 Cons.prems(3)] by simp
  then show ?case using a by simp
qed

lemma process_font_keeps_out:
  assumes "a_tmp ar \<noteq> a_output ar" "process_font db ar en phrases f st = Some st'"
    "butlast q = a_output ar" "s_files st q \<noteq> None"
  shows "s_files st' q = s_files st q"
proof (cases "font_setup (e_font en f)")
  case None
  then have "phrase_loop db ar en f 0 phrases st = Some st'"
    using assms(2) by (simp add: process_font_def)
  then show ?thesis using phrase_loop_keeps_out[OF assms(1) _ assms(3,4)] by simp
next
  case (Some e)
  then have "st' = st\<lparr>s_log := s_log st @ [EvFontError f e]\<rparr>"
    using assms(2) by (auto simp: process_font_def)
  then show ?thesis by simp
qed

lemma font_loop_keeps_out:
  "a_tmp ar \<noteq> a_output ar \<Longrightarrow> font_loop db ar en phrases items st = Some st'
     \<Longrightarrow> butlast q = a_output ar \<Longrightarrow> s_files st q \<noteq> None \<Longrightarrow> s_files st' q = s_files st q"
proof (induction items arbitrary: st)
  case Nil
  then show ?case by simp
next
  case (Cons it items)
  show ?case
  proof (cases it)
    case (Warn p)
    then have "font_loop db ar en phrases items (st\<lparr>s_log := s_log st @ [EvSkipNonTTF p]\<rparr>) = Some st'"
      using Cons.prems(2) by simp
    then have "s_files st' q = s_files (st\<lparr>s_log := s_log st @ [EvSkipNonTTF p]\<rparr>) q"
      using Cons.IH[OF Cons.prems(1) _ Cons.prems(3)] Cons.prems(4) by simp
    then show ?thesis by simp
  next
    case (Yield p)
    then obtain st1 where 1: "process_font db ar en phrases p st = Some st1"
      and 2: "font_loop db ar en phrases items st1 = Some st'"
      using Cons.prems(2) by (auto split: option.splits)
    have a: "s_files st1 q = s_files st q"
      using process_font_keeps_out[OF Cons.prems(1) 1 Cons.prems(3,4)] .
    then have "s_files st1 q \<noteq> None" using Cons.prems(4) by simp
    then have "s_files st' q = s_files st1 q" using Cons.IH[OF Cons.prems(1) 2 Cons.prems(3)] by simp
    then show ?thesis using a by simp
  qed
qed

text \<open>A font whose setup raises is logged and left; otherwise its phrases are run.\<close>

lemma process_font_setup_fails:
  "fe_get (e_font en f) = Some e
     \<or> fe_get (e_font en f) = None \<and> fe_ready (e_font en f) = Some e
     \<or> fe_get (e_font en f) = None \<and> fe_ready (e_font en f) = None
         \<and> fe_upload (e_font en f) = Some e
   \<Longrightarrow> process_font db ar en phrases f st = Some (st\<lparr>s_log := s_log st @ [EvFontError f e]\<rparr>)"
  by (auto simp: process_font_def font_setup_def)

lemma process_font_setup_ok:
  "no_setup_error (e_font en f)
     \<Longrightarrow> process_font db ar en phrases f st = phrase_loop db ar en f 0 phrases st"
  by (simp add: process_font_def font_setup_def no_setup_error_def)

lemma setup_fail_log:
  "map_option r_log (main latin1 demo_args setup_fail_env Map.empty)
     = Some [EvDriverStarted,
         EvFontError font_1 (External 9),
         EvSkipNonTTF [cps ''fonts'', cps ''notes.txt''],
         EvOk (cps ''Beta.TTF'') (cps ''one'') (cps ''Beta__one.stl''),
         EvOk (cps ''Beta.TTF'') (cps ''two words'') (cps ''Beta__two_words.stl''),
         EvOk (cps ''Beta.TTF'') (cps ''3!'') (cps ''Beta__3.stl''),
         EvDriverQuit]"
  by (simp add: run_ev watch_ev scen_ev scen2_ev path_ev str_ev)

lemma setup_fail_decides: "decides latin1 demo_args (e_attempt setup_fail_env f j)"
  by (simp add: decides_def watch_ev scen_ev scen2_ev path_ev cps_def)


text \<open>
  Claim C2, as amended. Take a run whose download directory is not its output
  directory, whose phrase list loads and is not empty, whose browser starts and quits,
  and whose watchers all come to a decision. It finishes, whatever fails for single
  pairs or fonts. Its log reports on every pair of a font whose setup did not raise
  with a phrase exactly once, in the order of the loops; a pair is reported either as
  an artifact or as a failure with the name of its font and its phrase, so that two
  fonts that are set up and three phrases with one failure give five artifacts. Each
  font whose setup raised is reported once and none of its phrases is attempted. The
  artifacts announced have names of their own and are all files of the output
  directory at the end, and every file that was in the output directory at the start
  is unchanged.

  For a single attempt: when \<open>set_phrase\<close> or \<open>click_download\<close> raises, the watcher times
  out or the move fails, the attempt prints the failure with the font name and the
  phrase and the run itself has changed no file; no attempt, failed or not, changes
  or removes a file that is already in the output directory, so the artifacts of the
  other pairs stay as they are. (Which free name a later artifact gets still depends on
  the artifacts that exist: see the counterexample.) For a single font: when one of
  the three setup calls raises, the font is logged with that exception and nothing
  else happens for it.
\<close>

theorem batch_isolation:
  assumes "a_tmp ar \<noteq> a_output ar"
    and "load_phrases (a_phrases ar) (e_phrase_file en) = Inr (phrases, evs0)"
    and "phrases \<noteq> []"
    and "e_make_driver en = None" and "e_quit en = None"
    and "\<forall>f j. decides db ar (e_attempt en f j)"
  shows "(\<exists>r. main db ar en files0 = Some r \<and> r_exit r = Finished
       \<and> pairs (r_log r)
           = all_pairs (filter (\<lambda>f. no_setup_error (e_font en f)) (fonts_of db ar en)) phrases
       \<and> font_errors (r_log r)
           = filter (\<lambda>f. \<not> no_setup_error (e_font en f)) (fonts_of db ar en)
       \<and> length (artifacts (r_log r)) + length (failures (r_log r))
           = length phrases
             * length (filter (\<lambda>f. no_setup_error (e_font en f)) (fonts_of db ar en))
       \<and> (length (filter (\<lambda>f. no_setup_error (e_font en f)) (fonts_of db ar en)) = 2
            \<and> length phrases = 3 \<and> length (failures (r_log r)) = 1
          \<longrightarrow> length (artifacts (r_log r)) = 5)
       \<and> distinct (artifacts (r_log r))
       \<and> list_all (\<lambda>n. r_files r (a_output ar @ [n]) \<noteq> None) (artifacts (r_log r))
       \<and> (\<forall>q. butlast q = a_output ar \<and> files0 q \<noteq> None \<longrightarrow> r_files r q = files0 q))
     \<and> (\<forall>f j ph st e dl.
           (at_set_phrase (e_attempt en f j) = Some e
            \<or> at_set_phrase (e_attempt en f j) = None \<and> at_click (e_attempt en f j) = Some e
            \<or> at_set_phrase (e_attempt en f j) = None \<and> at_click (e_attempt en f j) = None
                \<and> awaited db ar (e_attempt en f j) = Some (Inl e)
            \<or> at_set_phrase (e_attempt en f j) = None \<and> at_click (e_attempt en f j) = None
                \<and> awaited db ar (e_attempt en f j) = Some (Inr dl)
                \<and> safe_move (written (a_tmp ar) (at_downloads (e_attempt en f j)) (s_files st))
                     dl (a_output ar @ [out_name db f ph]) = Inl e)
          \<longrightarrow> process_phrase db ar en f j ph st
              = Some \<lparr>s_files = written (a_tmp ar) (at_downloads (e_attempt en f j)) (s_files st),
                      s_log = s_log st @ [EvPhraseError (name_of f) ph e]\<rparr>)
     \<and> (\<forall>f j ph st st' q. process_phrase db ar en f j ph st = Some st'
            \<and> butlast q = a_output ar \<and> s_files st q \<noteq> None
          \<longrightarrow> s_files st' q = s_files st q)
     \<and> (\<forall>f j ph st st'. process_phrase db ar en f j ph st = Some st'
            \<and> artifacts (s_log st') = artifacts (s_log st)
          \<longrightarrow> s_files st' = written (a_tmp ar) (at_downloads (e_attempt en f j)) (s_files st)
              \<and> (\<exists>e. s_log st' = s_log st @ [EvPhraseError (name_of f) ph e]))
     \<and> (\<forall>f st e.
           (fe_get (e_font en f) = Some e
            \<or> fe_get (e_font en f) = None \<and> fe_ready (e_font en f) = Some e
            \<or> fe_get (e_font en f) = None \<and> fe_ready (e_font en f) = None
                \<and> fe_upload (e_font en f) = Some e)
          \<longrightarrow> process_font db ar en phrases f st
              = Some (st\<lparr>s_log := s_log st @ [EvFontError f e]\<rparr>))
     \<and> (\<forall>f st. no_setup_error (e_font en f)
          \<longrightarrow> process_font db ar en phrases f st = phrase_loop db ar en f 0 phrases st)"
proof -
  let ?ok = "\<lambda>f. no_setup_error (e_font en f)"
  have ok: "setup_ok en = ?ok" using setup_ok_iff by blast
  let ?st0 = "\<lparr>s_files = files0, s_log = evs0 @ [EvDriverStarted]\<rparr>"
  obtain st evs where st: "font_loop db ar en phrases (iter_ttf_fonts db (e_fonts en) (a_fonts ar))
          ?st0 = Some st"
    and m: "main db ar en files0 = Some \<lparr>r_exit = Finished, r_log = s_log st @ [EvDriverQuit],
          r_files = s_files st\<rparr>"
    and lg: "s_log st = evs0 @ [EvDriverStarted] @ evs"
    and ps: "pairs evs = all_pairs (filter (setup_ok en) (fonts_of db ar en)) phrases"
    and fe: "font_errors evs = filter (\<lambda>f. \<not> setup_ok en f) (fonts_of db ar en)"
    and ln: "length (artifacts evs) + length (failures evs)
         = length phrases * length (filter (setup_ok en) (fonts_of db ar en))"
    using main_finished[OF assms(2-6)] by blast
  have e0: "pairs evs0 = []" "artifacts evs0 = []" "failures evs0 = []" "font_errors evs0 = []"
    using load_phrases_events[OF assms(2)] by simp_all
  have "artifacts_kept ar ?st0"
    by (simp add: artifacts_kept_def log_append e0 log_Driver)
  then have kept: "artifacts_kept ar st" using font_loop_kept[OF assms(1) _ st] by simp
  let ?r = "\<lparr>r_exit = Finished, r_log = s_log st @ [EvDriverQuit], r_files = s_files st\<rparr>"
  have rl: "r_log ?r = evs0 @ [EvDriverStarted] @ evs @ [EvDriverQuit]"
    by (simp add: lg)
  have a: "artifacts (r_log ?r) = artifacts (s_log st)"
    by (simp add: log_append log_Driver)
  have "pairs (r_log ?r) = pairs evs0 @ pairs [EvDriverStarted] @ pairs evs @ pairs [EvDriverQuit]"
    unfolding rl by (simp only: log_append)
  then have n1: "pairs (r_log ?r) = all_pairs (filter ?ok (fonts_of db ar en)) phrases"
    using ps unfolding ok by (simp add: e0 log_Driver)
  have "font_errors (r_log ?r)
      = font_errors evs0 @ font_errors [EvDriverStarted] @ font_errors evs @ font_errors [EvDriverQuit]"
    unfolding rl by (simp only: log_append)
  then have n2: "font_errors (r_log ?r) = filter (\<lambda>f. \<not> ?ok f) (fonts_of db ar en)"
    using fe unfolding ok by (simp add: e0 log_Driver)
  have "artifacts (r_log ?r)
      = artifacts evs0 @ artifacts [EvDriverStarted] @ artifacts evs @ artifacts [EvDriverQuit]"
    "failures (r_log ?r)
      = failures evs0 @ failures [EvDriverStarted] @ failures evs @ failures [EvDriverQuit]"
    unfolding rl by (simp_all only: log_append)
  then have n3: "length (artifacts (r_log ?r)) + length (failures (r_log ?r))
           = length phrases * length (filter ?ok (fonts_of db ar en))"
    using ln unfolding ok by (simp add: e0 log_Driver)
  have n3b: "length (filter ?ok (fonts_of db ar en)) = 2
            \<and> length phrases = 3 \<and> length (failures (r_log ?r)) = 1
          \<longrightarrow> length (artifacts (r_log ?r)) = 5"
    using n3 by auto
  have n4: "distinct (artifacts (r_log ?r))"
    using kept unfolding a by (simp add: artifacts_kept_def)
  have n5: "list_all (\<lambda>n. r_files ?r (a_output ar @ [n]) \<noteq> None) (artifacts (r_log ?r))"
    using kept unfolding a by (simp add: artifacts_kept_def)
  have n6: "\<forall>q. butlast q = a_output ar \<and> files0 q \<noteq> None \<longrightarrow> r_files ?r q = files0 q"
  proof (intro allI impI)
    fix q assume q: "butlast q = a_output ar \<and> files0 q \<noteq> None"
    have "s_files st q = s_files ?st0 q"
      using font_loop_keeps_out[OF assms(1) st, of q] q by simp
    then show "r_files ?r q = files0 q" by simp
  qed
  have run: "\<exists>r. main db ar en files0 = Some r \<and> r_exit r = Finished
       \<and> pairs (r_log r) = all_pairs (filter ?ok (fonts_of db ar en)) phrases
       \<and> font_errors (r_log r) = filter (\<lambda>f. \<not> ?ok f) (fonts_of db ar en)
       \<and> length (artifacts (r_log r)) + length (failures (r_log r))
           = length phrases * length (filter ?ok (fonts_of db ar en))
       \<and> (length (filter ?ok (fonts_of db ar en)) = 2
            \<and> length phrases = 3 \<and> length (failures (r_log r)) = 1
          \<longrightarrow> length (artifacts (r_log r)) = 5)
       \<and> distinct (artifacts (r_log r))
       \<and> list_all (\<lambda>n. r_files r (a_output ar @ [n]) \<noteq> None) (artifacts (r_log r))
       \<and> (\<forall>q. butlast q = a_output ar \<and> files0 q \<noteq> None \<longrightarrow> r_files r q = files0 q)"
    using m n1 n2 n3 n3b n4 n5 n6 by (intro exI[of _ ?r] conjI) simp_all
  have fails1: "process_phrase db ar en f j ph st
              = Some \<lparr>s_files = written (a_tmp ar) (at_downloads (e_attempt en f j)) (s_files st),
                      s_log = s_log st @ [EvPhraseError (name_of f) ph e]\<rparr>"
    if "at_set_phrase (e_attempt en f j) = Some e
            \<or> at_set_phrase (e_attempt en f j) = None \<and> at_click (e_attempt en f j) = Some e
            \<or> at_set_phrase (e_attempt en f j) = None \<and> at_click (e_attempt en f j) = None
                \<and> awaited db ar (e_attempt en f j) = Some (Inl e)
            \<or> at_set_phrase (e_attempt en f j) = None \<and> at_click (e_attempt en f j) = None
                \<and> awaited db ar (e_attempt en f j) = Some (Inr dl)
                \<and> safe_move (written (a_tmp ar) (at_downloads (e_attempt en f j)) (s_files st))
                     dl (a_output ar @ [out_name db f ph]) = Inl e" for f j ph st e dl
    using that
  proof (elim disjE conjE)
    assume "at_set_phrase (e_attempt en f j) = Some e"
    then show ?thesis by (rule process_phrase_render_fails)
  next
    assume "at_set_phrase (e_attempt en f j) = None" "at_click (e_attempt en f j) = Some e"
    then show ?thesis by (rule process_phrase_click_fails)
  next
    assume "at_set_phrase (e_attempt en f j) = None" "at_click (e_attempt en f j) = None"
      "awaited db ar (e_attempt en f j) = Some (Inl e)"
    then show ?thesis by (rule process_phrase_watcher_fails)
  next
    assume "at_set_phrase (e_attempt en f j) = None" "at_click (e_attempt en f j) = None"
      "awaited db ar (e_attempt en f j) = Some (Inr dl)"
      "safe_move (written (a_tmp ar) (at_downloads (e_attempt en f j)) (s_files st))
                   dl (a_output ar @ [out_name db f ph]) = Inl e"
    then show ?thesis by (rule process_phrase_move_fails)
  qed
  have fails: "\<forall>f j ph st e dl.
           (at_set_phrase (e_attempt en f j) = Some e
            \<or> at_set_phrase (e_attempt en f j) = None \<and> at_click (e_attempt en f j) = Some e
            \<or> at_set_phrase (e_attempt en f j) = None \<and> at_click (e_attempt en f j) = None
                \<and> awaited db ar (e_attempt en f j) = Some (Inl e)
            \<or> at_set_phrase (e_attempt en f j) = None \<and> at_click (e_attempt en f j) = None
                \<and> awaited db ar (e_attempt en f j) = Some (Inr dl)
                \<and> safe_move (written (a_tmp ar) (at_downloads (e_attempt en f j)) (s_files st))
                     dl (a_output ar @ [out_name db f ph]) = Inl e)
          \<longrightarrow> process_phrase db ar en f j ph st
              = Some \<lparr>s_files = written (a_tmp ar) (at_downloads (e_attempt en f j)) (s_files st),
                      s_log = s_log st @ [EvPhraseError (name_of f) ph e]\<rparr>"
    by (intro allI impI) (rule fails1)
  have keeps1: "s_files st' q = s_files st q"
    if "process_phrase db ar en f j ph st = Some st'
            \<and> butlast q = a_output ar \<and> s_files st q \<noteq> None" for f j ph st st' q
    using process_phrase_keeps_out[OF assms(1), of db en f j ph st st' q] that by simp
  have keeps: "\<forall>f j ph st st' q. process_phrase db ar en f j ph st = Some st'
            \<and> butlast q = a_output ar \<and> s_files st q \<noteq> None
          \<longrightarrow> s_files st' q = s_files st q"
    by (intro allI impI) (rule keeps1)
  have step: "s_files st' = written (a_tmp ar) (at_downloads (e_attempt en f j)) (s_files st)
      \<and> (\<exists>e. s_log st' = s_log st @ [EvPhraseError (name_of f) ph e])"
    if "process_phrase db ar en f j ph st = Some st'
      \<and> artifacts (s_log st') = artifacts (s_log st)" for f j ph st st'
  proof -
    from that have p: "process_phrase db ar en f j ph st = Some st'"
      and same: "artifacts (s_log st') = artifacts (s_log st)" by simp_all
    from process_phrase_cases[OF p] show ?thesis
    proof (elim disjE exE conjE)
      fix e
      assume "st' = \<lparr>s_files = written (a_tmp ar) (at_downloads (e_attempt en f j)) (s_files st),
              s_log = s_log st @ [EvPhraseError (name_of f) ph e]\<rparr>"
      then show ?thesis by simp
    next
      fix dl files' fin
      assume "st' = \<lparr>s_files = files', s_log = s_log st @ [EvOk (name_of f) ph (name_of fin)]\<rparr>"
      then have "artifacts (s_log st') = artifacts (s_log st) @ [name_of fin]"
        by (simp add: log_append log_Ok)
      then show ?thesis using same by simp
    qed
  qed
  have font_fails: "\<forall>f st e.
           (fe_get (e_font en f) = Some e
            \<or> fe_get (e_font en f) = None \<and> fe_ready (e_font en f) = Some e
            \<or> fe_get (e_font en f) = None \<and> fe_ready (e_font en f) = None
                \<and> fe_upload (e_font en f) = Some e)
          \<longrightarrow> process_font db ar en phrases f st
              = Some (st\<lparr>s_log := s_log st @ [EvFontError f e]\<rparr>)"
    by (intro allI impI) (rule process_font_setup_fails)
  have setup_fine: "\<forall>f st. no_setup_error (e_font en f)
          \<longrightarrow> process_font db ar en phrases f st = phrase_loop db ar en f 0 phrases st"
    by (intro allI impI) (rule process_font_setup_ok)
  from step have step': "\<forall>f j ph st st'. process_phrase db ar en f j ph st = Some st'
            \<and> artifacts (s_log st') = artifacts (s_log st)
          \<longrightarrow> s_files st' = written (a_tmp ar) (at_downloads (e_attempt en f j)) (s_files st)
              \<and> (\<exists>e. s_log st' = s_log st @ [EvPhraseError (name_of f) ph e])"
    by blast
  show ?thesis
    by (intro conjI) (rule run, rule fails, rule keeps, rule step', rule font_fails, rule setup_fine)
qed


text \<open>
  Claim C2 on two batches of two fonts and three phrases. In the first, \<open>set_phrase\<close>
  raises for the second phrase of the first font: the attempt logs that font and that
  phrase, and the run gives five artifacts and one logged failure. In the second,
  \<open>wait_for_ui_ready\<close> raises for the first font: the font is logged once, none of its
  phrases is attempted, and the three phrases of the second font give three artifacts.
\<close>

theorem batch_isolation_witness:
  "a_tmp demo_args \<noteq> a_output demo_args
   \<and> load_phrases (a_phrases demo_args) (e_phrase_file demo_env)
       = Inr ([cps ''one'', cps ''two words'', cps ''3!''], [])
   \<and> e_make_driver demo_env = None \<and> e_quit demo_env = None
   \<and> (\<forall>f j. decides latin1 demo_args (e_attempt demo_env f j))
   \<and> filter (\<lambda>f. no_setup_error (e_font demo_env f)) (fonts_of latin1 demo_args demo_env)
       = [font_1, font_2]
   \<and> at_set_phrase (e_attempt demo_env font_1 1) = Some (External 7)
   \<and> map_option s_log (process_phrase latin1 demo_args demo_env font_1 1 (cps ''two words'')
        \<lparr>s_files = Map.empty, s_log = []\<rparr>)
       = Some [EvPhraseError (cps ''Alpha.ttf'') (cps ''two words'') (External 7)]
   \<and> map_option (\<lambda>r. artifacts (r_log r)) (main latin1 demo_args demo_env Map.empty)
       = Some [cps ''Alpha__one.stl'', cps ''Alpha__3.stl'', cps ''Beta__one.stl'',
               cps ''Beta__two_words.stl'', cps ''Beta__3.stl'']
   \<and> map_option (\<lambda>r. failures (r_log r)) (main latin1 demo_args demo_env Map.empty)
       = Some [(cps ''Alpha.ttf'', cps ''two words'')]
   \<and> map_option r_exit (main latin1 demo_args demo_env Map.empty) = Some Finished
   \<and> load_phrases (a_phrases demo_args) (e_phrase_file setup_fail_env)
       = Inr ([cps ''one'', cps ''two words'', cps ''3!''], [])
   \<and> e_make_driver setup_fail_env = None \<and> e_quit setup_fail_env = None
   \<and> (\<forall>f j. decides latin1 demo_args (e_attempt setup_fail_env f j))
   \<and> fonts_of latin1 demo_args setup_fail_env = [font_1, font_2]
   \<and> fe_get (e_font setup_fail_env font_1) = None
   \<and> fe_ready (e_font setup_fail_env font_1) = Some (External 9)
   \<and> no_setup_error (e_font setup_fail_env font_2)
   \<and> process_font latin1 demo_args setup_fail_env [cps ''one'', cps ''two words'', cps ''3!'']
        font_1 \<lparr>s_files = Map.empty, s_log = []\<rparr>
       = Some \<lparr>s_files = Map.empty, s_log = [EvFontError font_1 (External 9)]\<rparr>
   \<and> map_option (\<lambda>r. font_errors (r_log r)) (main latin1 demo_args setup_fail_env Map.empty)
       = Some [font_1]
   \<and> map_option (\<lambda>r. pairs (r_log r)) (main latin1 demo_args setup_fail_env Map.empty)
       = Some [(cps ''Beta.TTF'', cps ''one''), (cps ''Beta.TTF'', cps ''two words''),
               (cps ''Beta.TTF'', cps ''3!'')]
   \<and> map_option (\<lambda>r. artifacts (r_log r)) (main latin1 demo_args setup_fail_env Map.empty)
       = Some [cps ''Beta__one.stl'', cps ''Beta__two_words.stl'', cps ''Beta__3.stl'']
   \<and> map_option r_exit (main latin1 demo_args setup_fail_env Map.empty) = Some Finished"
proof -
  let ?phrases = "[cps ''one'', cps ''two words'', cps ''3!'']"
  let ?st0 = "\<lparr>s_files = Map.empty, s_log = []\<rparr> :: nat state"
  have h1: "a_tmp demo_args \<noteq> a_output demo_args"
    by (simp add: scen_ev cps_def)
  have h2: "?phrases \<noteq> []" by simp
  have h3: "e_make_driver demo_env = None" "e_quit demo_env = None"
    by (simp_all add: demo_env_def)
  have h4: "\<forall>f j. decides latin1 demo_args (e_attempt demo_env f j)"
    using demo_decides by blast
  have g0: "load_phrases (a_phrases demo_args) (e_phrase_file setup_fail_env)
       = Inr (?phrases, [])"
    using demo_load by (simp add: setup_fail_env_def)
  have g3: "e_make_driver setup_fail_env = None" "e_quit setup_fail_env = None"
    by (simp_all add: setup_fail_env_def demo_env_def)
  have g4: "\<forall>f j. decides latin1 demo_args (e_attempt setup_fail_env f j)"
    using setup_fail_decides by blast
  note A = batch_isolation[OF h1 demo_load h2 h3 h4, of Map.empty]
  note B = batch_isolation[OF h1 g0 h2 g3 g4, of Map.empty]
  have fo: "fonts_of latin1 demo_args demo_env = [font_1, font_2]"
    by (simp add: fonts_of_def demo_items)
  have fo2: "fonts_of latin1 demo_args setup_fail_env = [font_1, font_2]"
    using demo_items by (simp add: fonts_of_def setup_fail_env_def)
  have ne12: "font_1 \<noteq> font_2" by (simp add: scen_ev cps_def)
  have ok1: "filter (\<lambda>f. no_setup_error (e_font demo_env f)) (fonts_of latin1 demo_args demo_env)
       = [font_1, font_2]"
    unfolding fo by (simp add: no_setup_error_def demo_env_def)
  have sp: "at_set_phrase (e_attempt demo_env font_1 1) = Some (External 7)"
    by (simp add: demo_env_def demo_attempt_def)
  have nm: "name_of font_1 = cps ''Alpha.ttf''"
    by (simp add: scen_ev path_ev)
  have "process_phrase latin1 demo_args demo_env font_1 1 (cps ''two words'') ?st0
      = Some \<lparr>s_files = written (a_tmp demo_args) (at_downloads (e_attempt demo_env font_1 1))
                 (s_files ?st0),
              s_log = s_log ?st0 @ [EvPhraseError (name_of font_1) (cps ''two words'') (External 7)]\<rparr>"
    using A[THEN conjunct2, THEN conjunct1, THEN spec[of _ font_1], THEN spec[of _ 1],
        THEN spec[of _ "cps ''two words''"], THEN spec[of _ ?st0],
        THEN spec[of _ "External 7"], THEN spec[of _ "[]"], THEN mp] sp
    by blast
  then have pp: "map_option s_log (process_phrase latin1 demo_args demo_env font_1 1
        (cps ''two words'') ?st0)
       = Some [EvPhraseError (cps ''Alpha.ttf'') (cps ''two words'') (External 7)]"
    by (simp add: nm)
  obtain r where r: "main latin1 demo_args demo_env Map.empty = Some r" "r_exit r = Finished"
    using A[THEN conjunct1] by blast
  have rl: "r_log r = [EvDriverStarted,
         EvOk (cps ''Alpha.ttf'') (cps ''one'') (cps ''Alpha__one.stl''),
         EvPhraseError (cps ''Alpha.ttf'') (cps ''two words'') (External 7),
         EvOk (cps ''Alpha.ttf'') (cps ''3!'') (cps ''Alpha__3.stl''),
         EvSkipNonTTF [cps ''fonts'', cps ''notes.txt''],
         EvOk (cps ''Beta.TTF'') (cps ''one'') (cps ''Beta__one.stl''),
         EvOk (cps ''Beta.TTF'') (cps ''two words'') (cps ''Beta__two_words.stl''),
         EvOk (cps ''Beta.TTF'') (cps ''3!'') (cps ''Beta__3.stl''),
         EvDriverQuit]"
    using demo_log r(1) by simp
  have demo: "map_option (\<lambda>r. artifacts (r_log r)) (main latin1 demo_args demo_env Map.empty)
       = Some [cps ''Alpha__one.stl'', cps ''Alpha__3.stl'', cps ''Beta__one.stl'',
               cps ''Beta__two_words.stl'', cps ''Beta__3.stl'']"
    "map_option (\<lambda>r. failures (r_log r)) (main latin1 demo_args demo_env Map.empty)
       = Some [(cps ''Alpha.ttf'', cps ''two words'')]"
    "map_option r_exit (main latin1 demo_args demo_env Map.empty) = Some Finished"
    using r rl by (simp_all add: log_defs)
  have sg: "fe_get (e_font setup_fail_env font_1) = None"
    "fe_ready (e_font setup_fail_env font_1) = Some (External 9)"
    by (simp_all add: setup_fail_env_def)
  have sk: "no_setup_error (e_font setup_fail_env font_2)"
    using ne12 by (simp add: setup_fail_env_def no_setup_error_def)
  have "process_font latin1 demo_args setup_fail_env ?phrases font_1 ?st0
      = Some (?st0\<lparr>s_log := s_log ?st0 @ [EvFontError font_1 (External 9)]\<rparr>)"
    using B[THEN conjunct2, THEN conjunct2, THEN conjunct2, THEN conjunct2, THEN conjunct1,
        THEN spec[of _ font_1], THEN spec[of _ ?st0], THEN spec[of _ "External 9"], THEN mp] sg
    by blast
  then have pf: "process_font latin1 demo_args setup_fail_env ?phrases font_1 ?st0
       = Some \<lparr>s_files = Map.empty, s_log = [EvFontError font_1 (External 9)]\<rparr>"
    by simp
  obtain r2 where r2: "main latin1 demo_args setup_fail_env Map.empty = Some r2"
    "r_exit r2 = Finished"
    using B[THEN conjunct1] by blast
  have rl2: "r_log r2 = [EvDriverStarted,
         EvFontError font_1 (External 9),
         EvSkipNonTTF [cps ''fonts'', cps ''notes.txt''],
         EvOk (cps ''Beta.TTF'') (cps ''one'') (cps ''Beta__one.stl''),
         EvOk (cps ''Beta.TTF'') (cps ''two words'') (cps ''Beta__two_words.stl''),
         EvOk (cps ''Beta.TTF'') (cps ''3!'') (cps ''Beta__3.stl''),
         EvDriverQuit]"
    using setup_fail_log r2(1) by simp
  have fail: "map_option (\<lambda>r. font_errors (r_log r)) (main latin1 demo_args setup_fail_env Map.empty)
       = Some [font_1]"
    "map_option (\<lambda>r. pairs (r_log r)) (main latin1 demo_args setup_fail_env Map.empty)
       = Some [(cps ''Beta.TTF'', cps ''one''), (cps ''Beta.TTF'', cps ''two words''),
               (cps ''Beta.TTF'', cps ''3!'')]"
    "map_option (\<lambda>r. artifacts (r_log r)) (main latin1 demo_args setup_fail_env Map.empty)
       = Some [cps ''Beta__one.stl'', cps ''Beta__two_words.stl'', cps ''Beta__3.stl'']"
    "map_option r_exit (main latin1 demo_args setup_fail_env Map.empty) = Some Finished"
    using r2 rl2 by (simp_all add: log_defs)
  show ?thesis
    by (intro conjI) (rule h1 demo_load h3 h4 ok1 sp pp demo g0 g3 g4 fo2 sg sk pf fail)+
qed


text \<open>
  Claim C2 as stated fails where it says that a failure leaves the artifacts of every
  other pair unchanged. For one font \<open>F.ttf\<close> and the phrases \<open>a b\<close> and \<open>a_b\<close>, which are
  sanitized to the same stem, the pair of \<open>a_b\<close> gets \<open>F__a_b_01.stl\<close> when nothing fails,
  and \<open>F__a_b.stl\<close> when \<open>set_phrase\<close> raises for \<open>a b\<close>: the path of its artifact, and the
  content of \<open>out/F__a_b.stl\<close>, depend on the failure of the other pair.
\<close>

theorem batch_isolation_counterexample:
  "map_option r_log (main latin1 demo_args (collision_env False) Map.empty)
     = Some [EvDriverStarted,
         EvOk (cps ''F.ttf'') (cps ''a b'') (cps ''F__a_b.stl''),
         EvOk (cps ''F.ttf'') (cps ''a_b'') (cps ''F__a_b_01.stl''),
         EvDriverQuit]
   \<and> map_option r_log (main latin1 demo_args (collision_env True) Map.empty)
     = Some [EvDriverStarted,
         EvPhraseError (cps ''F.ttf'') (cps ''a b'') (External 7),
         EvOk (cps ''F.ttf'') (cps ''a_b'') (cps ''F__a_b.stl''),
         EvDriverQuit]
   \<and> map_option (\<lambda>r. (r_files r [cps ''out'', cps ''F__a_b.stl''],
          r_files r [cps ''out'', cps ''F__a_b_01.stl'']))
        (main latin1 demo_args (collision_env False) Map.empty) = Some (Some 0, Some 1)
   \<and> map_option (\<lambda>r. (r_files r [cps ''out'', cps ''F__a_b.stl''],
          r_files r [cps ''out'', cps ''F__a_b_01.stl'']))
        (main latin1 demo_args (collision_env True) Map.empty) = Some (Some 1, None)"
  by (simp add: run_ev watch_ev scen_ev scen2_ev path_ev str_ev try_candidates.simps
      candidate_def fmt02_def digits.simps)


text \<open>
  Claim C7, as amended. The run ends at the early \<open>return\<close>, before the browser is
  started, exactly when the phrase file is missing or has no usable phrase. In every
  other run in which the phrase file can be read, the browser starts and quits and the
  watchers decide, \<open>main\<close> returns at its last line, also when there is no font at all:
  it has started and quit the browser, set up every font, and attempted every phrase
  for each font whose setup succeeded. An exception leaves \<open>main\<close> only when it comes
  from reading the phrase file, from starting the browser or from quitting it.
\<close>

theorem main_abort_iff:
  "((\<exists>r. main db ar en files0 = Some r \<and> r_exit r = EarlyReturn)
      \<longleftrightarrow> (\<exists>evs. load_phrases (a_phrases ar) (e_phrase_file en) = Inr ([], evs)))
   \<and> (e_phrase_file en = NoFile
       \<longrightarrow> main db ar en files0 = Some \<lparr>r_exit = EarlyReturn,
             r_log = [EvPhraseFileNotFound (a_phrases ar), EvNoValidPhrases], r_files = files0\<rparr>)
   \<and> (load_phrases (a_phrases ar) (e_phrase_file en) = Inr (phrases, evs0) \<and> phrases \<noteq> []
        \<and> e_make_driver en = None \<and> e_quit en = None
        \<and> (\<forall>f j. decides db ar (e_attempt en f j))
       \<longrightarrow> (\<exists>r. main db ar en files0 = Some r \<and> r_exit r = Finished
             \<and> EvDriverStarted \<in> set (r_log r) \<and> last (r_log r) = EvDriverQuit
             \<and> pairs (r_log r) = all_pairs (filter (setup_ok en) (fonts_of db ar en)) phrases
             \<and> font_errors (r_log r) = filter (\<lambda>f. \<not> setup_ok en f) (fonts_of db ar en)))
   \<and> (\<forall>r e. main db ar en files0 = Some r \<and> r_exit r = Uncaught e
       \<longrightarrow> load_phrases (a_phrases ar) (e_phrase_file en) = Inl e
           \<or> e_make_driver en = Some e \<or> e_quit en = Some e)"
proof -
  have 1: "(\<exists>r. main db ar en files0 = Some r \<and> r_exit r = EarlyReturn)
      \<longleftrightarrow> (\<exists>evs. load_phrases (a_phrases ar) (e_phrase_file en) = Inr ([], evs))"
    unfolding main_def by (auto split: sum.splits prod.splits option.splits if_splits)
  have 2: "e_phrase_file en = NoFile
       \<longrightarrow> main db ar en files0 = Some \<lparr>r_exit = EarlyReturn,
             r_log = [EvPhraseFileNotFound (a_phrases ar), EvNoValidPhrases], r_files = files0\<rparr>"
    by (simp add: main_def load_phrases_def)
  have 3: "\<exists>r. main db ar en files0 = Some r \<and> r_exit r = Finished
             \<and> EvDriverStarted \<in> set (r_log r) \<and> last (r_log r) = EvDriverQuit
             \<and> pairs (r_log r) = all_pairs (filter (setup_ok en) (fonts_of db ar en)) phrases
             \<and> font_errors (r_log r) = filter (\<lambda>f. \<not> setup_ok en f) (fonts_of db ar en)"
    if h: "load_phrases (a_phrases ar) (e_phrase_file en) = Inr (phrases, evs0) \<and> phrases \<noteq> []
        \<and> e_make_driver en = None \<and> e_quit en = None
        \<and> (\<forall>f j. decides db ar (e_attempt en f j))"
  proof -
    from h have h1: "load_phrases (a_phrases ar) (e_phrase_file en) = Inr (phrases, evs0)"
      and h2: "phrases \<noteq> []" and h3: "e_make_driver en = None" and h4: "e_quit en = None"
      and h5: "\<forall>f j. decides db ar (e_attempt en f j)" by simp_all
    obtain st evs where st: "font_loop db ar en phrases
          (iter_ttf_fonts db (e_fonts en) (a_fonts ar))
          \<lparr>s_files = files0, s_log = evs0 @ [EvDriverStarted]\<rparr> = Some st"
      and m: "main db ar en files0 = Some \<lparr>r_exit = Finished, r_log = s_log st @ [EvDriverQuit],
          r_files = s_files st\<rparr>"
      and lg: "s_log st = evs0 @ [EvDriverStarted] @ evs"
      and ps: "pairs evs = all_pairs (filter (setup_ok en) (fonts_of db ar en)) phrases"
      and fe: "font_errors evs = filter (\<lambda>f. \<not> setup_ok en f) (fonts_of db ar en)"
      and ln: "length (artifacts evs) + length (failures evs)
         = length phrases * length (filter (setup_ok en) (fonts_of db ar en))"
      using main_finished[OF h1 h2 h3 h4 h5] by blast
    have e0: "pairs evs0 = []" "font_errors evs0 = []"
      using load_phrases_events[of "a_phrases ar" "e_phrase_file en" phrases evs0] h by simp_all
    let ?r = "\<lparr>r_exit = Finished, r_log = s_log st @ [EvDriverQuit], r_files = s_files st\<rparr>"
    have rl: "r_log ?r = evs0 @ [EvDriverStarted] @ evs @ [EvDriverQuit]"
      by (simp add: lg)
    have "pairs (r_log ?r) = pairs evs0 @ pairs [EvDriverStarted] @ pairs evs @ pairs [EvDriverQuit]"
      unfolding rl by (simp only: log_append)
    then have a: "pairs (r_log ?r) = all_pairs (filter (setup_ok en) (fonts_of db ar en)) phrases"
      using ps by (simp add: e0 log_Driver)
    have "font_errors (r_log ?r) = font_errors evs0 @ font_errors [EvDriverStarted]
        @ font_errors evs @ font_errors [EvDriverQuit]"
      unfolding rl by (simp only: log_append)
    then have b: "font_errors (r_log ?r) = filter (\<lambda>f. \<not> setup_ok en f) (fonts_of db ar en)"
      using fe by (simp add: e0 log_Driver)
    have c: "EvDriverStarted \<in> set (r_log ?r)" "last (r_log ?r) = EvDriverQuit"
      by (simp_all add: lg)
    show ?thesis using m a b c by (intro exI[of _ ?r] conjI) simp_all
  qed
  have 4: "\<forall>r e. main db ar en files0 = Some r \<and> r_exit r = Uncaught e
       \<longrightarrow> load_phrases (a_phrases ar) (e_phrase_file en) = Inl e
           \<or> e_make_driver en = Some e \<or> e_quit en = Some e"
    unfolding main_def by (auto split: sum.splits prod.splits option.splits if_splits)
  show ?thesis using 1 2 3 4 by blast
qed

text \<open>
  Claim C7 on the batch of two fonts and three phrases, which finishes, and on the same
  batch without its phrase file, which returns early.
\<close>

theorem main_abort_iff_witness:
  "load_phrases (a_phrases demo_args) (e_phrase_file demo_env)
       = Inr ([cps ''one'', cps ''two words'', cps ''3!''], [])
   \<and> [cps ''one'', cps ''two words'', cps ''3!''] \<noteq> []
   \<and> e_make_driver demo_env = None \<and> e_quit demo_env = None
   \<and> (\<forall>f j. decides latin1 demo_args (e_attempt demo_env f j))
   \<and> map_option r_exit (main latin1 demo_args demo_env Map.empty) = Some Finished
   \<and> map_option (\<lambda>r. pairs (r_log r)) (main latin1 demo_args demo_env Map.empty)
       = Some [(cps ''Alpha.ttf'', cps ''one''), (cps ''Alpha.ttf'', cps ''two words''),
               (cps ''Alpha.ttf'', cps ''3!''), (cps ''Beta.TTF'', cps ''one''),
               (cps ''Beta.TTF'', cps ''two words''), (cps ''Beta.TTF'', cps ''3!'')]
   \<and> e_phrase_file (demo_env\<lparr>e_phrase_file := NoFile\<rparr>) = NoFile
   \<and> map_option r_exit (main latin1 demo_args (demo_env\<lparr>e_phrase_file := NoFile\<rparr>) Map.empty)
       = Some EarlyReturn"
proof -
  have 3: "e_make_driver demo_env = None" "e_quit demo_env = None"
    by (simp_all add: demo_env_def)
  have 4: "\<forall>f j. decides latin1 demo_args (e_attempt demo_env f j)"
    using demo_decides by blast
  have 5: "e_phrase_file (demo_env\<lparr>e_phrase_file := NoFile\<rparr>) = NoFile" by simp
  have 6: "map_option r_exit (main latin1 demo_args (demo_env\<lparr>e_phrase_file := NoFile\<rparr>) Map.empty)
       = Some EarlyReturn"
    using main_abort_iff[of latin1 demo_args "demo_env\<lparr>e_phrase_file := NoFile\<rparr>" Map.empty] 5
    by simp
  have pre: "load_phrases (a_phrases demo_args) (e_phrase_file demo_env)
        = Inr ([cps ''one'', cps ''two words'', cps ''3!''], [])
      \<and> [cps ''one'', cps ''two words'', cps ''3!''] \<noteq> []
      \<and> e_make_driver demo_env = None \<and> e_quit demo_env = None
      \<and> (\<forall>f j. decides latin1 demo_args (e_attempt demo_env f j))"
    using demo_load 3 4 by simp
  have "\<exists>r. main latin1 demo_args demo_env Map.empty = Some r \<and> r_exit r = Finished
      \<and> EvDriverStarted \<in> set (r_log r) \<and> last (r_log r) = EvDriverQuit
      \<and> pairs (r_log r) = all_pairs (filter (setup_ok demo_env)
            (fonts_of latin1 demo_args demo_env)) [cps ''one'', cps ''two words'', cps ''3!'']
      \<and> font_errors (r_log r)
          = filter (\<lambda>f. \<not> setup_ok demo_env f) (fonts_of latin1 demo_args demo_env)"
    using main_abort_iff[of latin1 demo_args demo_env Map.empty
        "[cps ''one'', cps ''two words'', cps ''3!'']" "[]",
        THEN conjunct2, THEN conjunct2, THEN conjunct1, THEN mp, OF pre] .
  then obtain r where r: "main latin1 demo_args demo_env Map.empty = Some r"
    "r_exit r = Finished" by blast
  have 7: "r_log r = [EvDriverStarted,
         EvOk (cps ''Alpha.ttf'') (cps ''one'') (cps ''Alpha__one.stl''),
         EvPhraseError (cps ''Alpha.ttf'') (cps ''two words'') (External 7),
         EvOk (cps ''Alpha.ttf'') (cps ''3!'') (cps ''Alpha__3.stl''),
         EvSkipNonTTF [cps ''fonts'', cps ''notes.txt''],
         EvOk (cps ''Beta.TTF'') (cps ''one'') (cps ''Beta__one.stl''),
         EvOk (cps ''Beta.TTF'') (cps ''two words'') (cps ''Beta__two_words.stl''),
         EvOk (cps ''Beta.TTF'') (cps ''3!'') (cps ''Beta__3.stl''),
         EvDriverQuit]"
    using demo_log r(1) by simp
  show ?thesis using demo_load 3 4 5 6 r 7 by (simp add: log_defs)
qed

text \<open>
  Claim C7 as stated fails on the batch with an empty font directory and three phrases:
  there is no font, and yet the run does not abort. It starts the browser, finds
  nothing to do, quits the browser and returns at its last line.
\<close>

theorem main_abort_iff_counterexample:
  "fonts_of latin1 demo_args no_fonts_env = []
   \<and> main latin1 demo_args no_fonts_env Map.empty
       = Some \<lparr>r_exit = Finished, r_log = [EvDriverStarted, EvDriverQuit], r_files = Map.empty\<rparr>"
  by (simp add: fonts_of_def run_ev scen_ev str_ev)


subsection \<open>The name of an artifact\<close>

lemma rfind_None: "c \<notin> set s \<Longrightarrow> rfind c s = None"
  by (induction s) auto

lemma rfind_last: "c \<notin> set ys \<Longrightarrow> rfind c (xs @ c # ys) = Some (length xs)"
  by (induction xs) (auto simp: rfind_None)

lemma stem_suffix_stl:
  assumes "x \<noteq> []"
  shows "stem_of (x @ cps ''.stl'') = x" and "suffix_of (x @ cps ''.stl'') = cps ''.stl''"
proof -
  have stl: "cps ''.stl'' = 46 # [115, 116, 108]" by (simp add: cps_def)
  have "rfind 46 (x @ 46 # [115, 116, 108]) = Some (length x)"
    by (rule rfind_last) simp
  then show "stem_of (x @ cps ''.stl'') = x" "suffix_of (x @ cps ''.stl'') = cps ''.stl''"
    using assms unfolding stl by (simp_all add: stem_of_def suffix_of_def)
qed

lemma candidate_out_name:
  "candidate (out @ [out_name db f ph]) i
     = out @ [sanitize_stem db (stem_of (name_of f)) 80 @ cps ''__'' @ sanitize_stem db ph 80
              @ cps ''_'' @ fmt02 i @ cps ''.stl'']"
proof -
  let ?x = "sanitize_stem db (stem_of (name_of f)) 80 @ cps ''__'' @ sanitize_stem db ph 80"
  have x: "?x \<noteq> []" by (simp add: cps_def)
  have on: "out_name db f ph = ?x @ cps ''.stl''" by (simp add: out_name_def)
  have u: "cps ''_'' = [95]" by (simp add: cps_def)
  show ?thesis
    unfolding candidate_snoc on stem_suffix_stl[OF x] u by simp
qed

text \<open>
  Claim C8. When an attempt succeeds, the event it prints names the font, the phrase
  and the artifact. The artifact is a file of the output directory that was not there
  before. Its name is \<open>sanitize_stem\<close> of the font stem, two underscores,
  \<open>sanitize_stem\<close> of the phrase and \<open>.stl\<close>, or that name with a suffix \<open>_01\<close>, \<open>_02\<close>, ...
  before \<open>.stl\<close>; it is the name without a suffix whenever no file of that name is in
  the way. The font \<open>MyFont.ttf\<close> with the phrase \<open>Hello World!\<close> gives
  \<open>MyFont__Hello_World.stl\<close>, and \<open>Hello, World! / 2024\<close> is sanitized to
  \<open>Hello_World_2024\<close>.
\<close>

theorem artifact_name:
  assumes "process_phrase db ar en f j ph st = Some st'"
    and "s_log st' = s_log st @ [EvOk fn p n]"
  shows "fn = name_of f \<and> p = ph
   \<and> written (a_tmp ar) (at_downloads (e_attempt en f j)) (s_files st) (a_output ar @ [n]) = None
   \<and> s_files st' (a_output ar @ [n]) \<noteq> None
   \<and> (n = out_name db f ph
       \<or> (\<exists>i. 1 \<le> i \<and> i < 10000
            \<and> n = sanitize_stem db (stem_of (name_of f)) 80 @ cps ''__''
                  @ sanitize_stem db ph 80 @ cps ''_'' @ fmt02 i @ cps ''.stl''))
   \<and> (written (a_tmp ar) (at_downloads (e_attempt en f j)) (s_files st)
         (a_output ar @ [out_name db f ph]) = None \<longrightarrow> n = out_name db f ph)
   \<and> out_name db f ph = sanitize_stem db (stem_of (name_of f)) 80 @ cps ''__''
         @ sanitize_stem db ph 80 @ cps ''.stl''
   \<and> out_name db [cps ''fonts'', cps ''MyFont.ttf''] (cps ''Hello World!'')
       = cps ''MyFont__Hello_World.stl''
   \<and> sanitize_stem db (cps ''Hello, World! / 2024'') 80 = cps ''Hello_World_2024''"
proof -
  define files where "files = written (a_tmp ar) (at_downloads (e_attempt en f j)) (s_files st)"
  let ?dst = "a_output ar @ [out_name db f ph]"
  consider (fail) e where "st' = \<lparr>s_files = files,
        s_log = s_log st @ [EvPhraseError (name_of f) ph e]\<rparr>"
    | (ok) dl files' fin where
        "safe_move files dl ?dst = Inr (files', fin)"
        "st' = \<lparr>s_files = files', s_log = s_log st @ [EvOk (name_of f) ph (name_of fin)]\<rparr>"
    using process_phrase_cases[OF assms(1)] unfolding files_def by blast
  then have main: "fn = name_of f \<and> p = ph \<and> files (a_output ar @ [n]) = None
      \<and> s_files st' (a_output ar @ [n]) \<noteq> None
      \<and> (n = out_name db f ph
          \<or> (\<exists>i. 1 \<le> i \<and> i < 10000
               \<and> n = sanitize_stem db (stem_of (name_of f)) 80 @ cps ''__''
                     @ sanitize_stem db ph 80 @ cps ''_'' @ fmt02 i @ cps ''.stl''))
      \<and> (files ?dst = None \<longrightarrow> n = out_name db f ph)"
  proof cases
    case fail
    then show ?thesis using assms(2) by simp
  next
    case ok
    have n: "fn = name_of f" "p = ph" "n = name_of fin" using ok(2) assms(2) by simp_all
    have fin: "fin = a_output ar @ [n]" using safe_move_target[OF ok(1)] n(3) by simp
    obtain c where free: "files fin = None"
      and files': "files' = (files(dl := None))(fin := Some c)"
      and shape: "fin = ?dst \<or> (files ?dst \<noteq> None \<and> (\<exists>i. 1 \<le> i \<and> i < 10000 \<and> fin = candidate ?dst i))"
      using safe_move_Inr[OF ok(1)] by blast
    have there: "s_files st' (a_output ar @ [n]) \<noteq> None"
      unfolding ok(2) files' fin[symmetric] by simp
    from shape have names: "(n = out_name db f ph
          \<or> (\<exists>i. 1 \<le> i \<and> i < 10000
               \<and> n = sanitize_stem db (stem_of (name_of f)) 80 @ cps ''__''
                     @ sanitize_stem db ph 80 @ cps ''_'' @ fmt02 i @ cps ''.stl''))
        \<and> (files ?dst = None \<longrightarrow> n = out_name db f ph)"
    proof
      assume "fin = ?dst"
      then show ?thesis using fin by simp
    next
      assume "files ?dst \<noteq> None \<and> (\<exists>i. 1 \<le> i \<and> i < 10000 \<and> fin = candidate ?dst i)"
      then obtain i where i: "1 \<le> i" "i < 10000" "fin = candidate ?dst i"
        and taken: "files ?dst \<noteq> None" by blast
      have "n = sanitize_stem db (stem_of (name_of f)) 80 @ cps ''__''
          @ sanitize_stem db ph 80 @ cps ''_'' @ fmt02 i @ cps ''.stl''"
        using i(3) fin unfolding candidate_out_name by simp
      then show ?thesis using i(1,2) taken by blast
    qed
    show ?thesis using n(1,2) free fin there names by simp
  qed
  have ex: "out_name db [cps ''fonts'', cps ''MyFont.ttf''] (cps ''Hello World!'')
       = cps ''MyFont__Hello_World.stl''"
    "sanitize_stem db (cps ''Hello, World! / 2024'') 80 = cps ''Hello_World_2024''"
    by (simp_all add: out_name_def path_ev cps_def strip_def strip_by_def isspace_def
        allowed_def word_char_def ascii_alnum_def slice_to_def sanitize_stem_def)
  have on: "out_name db f ph = sanitize_stem db (stem_of (name_of f)) 80 @ cps ''__''
         @ sanitize_stem db ph 80 @ cps ''.stl''"
    by (simp add: out_name_def)
  show ?thesis using main ex on unfolding files_def by simp
qed

text \<open>
  Claim C8 on the first attempt of the batch of two fonts and three phrases: the font
  \<open>Alpha.ttf\<close> with the phrase \<open>one\<close> gives \<open>Alpha__one.stl\<close>.
\<close>

theorem artifact_name_witness:
  "map_option s_log (process_phrase latin1 demo_args demo_env font_1 0 (cps ''one'')
       \<lparr>s_files = Map.empty, s_log = []\<rparr>)
     = Some ([] @ [EvOk (cps ''Alpha.ttf'') (cps ''one'') (cps ''Alpha__one.stl'')])
   \<and> out_name latin1 font_1 (cps ''one'') = cps ''Alpha__one.stl''
   \<and> written (a_tmp demo_args) (at_downloads (e_attempt demo_env font_1 0)) Map.empty
        (a_output demo_args @ [cps ''Alpha__one.stl'']) = None"
proof -
  let ?st = "\<lparr>s_files = Map.empty, s_log = []\<rparr> :: nat state"
  have "\<exists>F. process_phrase latin1 demo_args demo_env font_1 0 (cps ''one'') ?st
      = Some \<lparr>s_files = F, s_log = [] @ [EvOk (cps ''Alpha.ttf'') (cps ''one'') (cps ''Alpha__one.stl'')]\<rparr>"
    by (simp add: run_ev watch_ev scen_ev path_ev str_ev)
  then obtain F where run: "process_phrase latin1 demo_args demo_env font_1 0 (cps ''one'') ?st
      = Some \<lparr>s_files = F, s_log = [] @ [EvOk (cps ''Alpha.ttf'') (cps ''one'') (cps ''Alpha__one.stl'')]\<rparr>"
    by blast
  have lg: "s_log \<lparr>s_files = F,
        s_log = [] @ [EvOk (cps ''Alpha.ttf'') (cps ''one'') (cps ''Alpha__one.stl'')]\<rparr>
      = s_log ?st @ [EvOk (cps ''Alpha.ttf'') (cps ''one'') (cps ''Alpha__one.stl'')]"
    by simp
  have on: "out_name latin1 font_1 (cps ''one'') = cps ''Alpha__one.stl''"
    by (simp add: run_ev scen_ev path_ev str_ev)
  have free: "written (a_tmp demo_args) (at_downloads (e_attempt demo_env font_1 0)) Map.empty
        (a_output demo_args @ [cps ''Alpha__one.stl'']) = None"
    using artifact_name[OF run lg, THEN conjunct2, THEN conjunct2, THEN conjunct1] by simp
  show ?thesis using run on free by simp
qed

end
